theory Spec2Isabelle
  imports Main "HOL-Library.Sublist" "HOL-Library.List_Lexorder" "HOL-Library.Char_ord"
begin

section \<open>Asset resolution\<close>

text \<open>
  \<open>FindAsset\<close> works on Go strings, modelled as \<open>string\<close> (lists of bytes).
  \<open>strings.HasPrefix\<close>, \<open>strings.HasSuffix\<close> and \<open>strings.Contains\<close> are
  \<open>prefix\<close>, \<open>suffix\<close> and \<open>sublist\<close>. The glob matcher \<open>filepath.Match\<close> belongs to
  Go's standard library; \<open>FindAsset\<close> takes it as the parameter \<open>m\<close>, a predicate on a
  pattern and a name (the code drops the matcher's error result, so a malformed pattern
  is just a pattern that matches nothing).
\<close>

datatype find_error = NoValidAssets | NoMatchingAssets

definition validAsset :: "string \<Rightarrow> string \<Rightarrow> bool" where
  "validAsset name asset \<longleftrightarrow>
     \<not> (\<not> prefix name asset \<or> suffix ''.sha256'' asset \<or> suffix ''.asc'' asset
        \<or> suffix ''.sig'' asset)"

definition patterns :: "string \<Rightarrow> string \<Rightarrow> string \<Rightarrow> string \<Rightarrow> string list" where
  "patterns name version goos arch =
     [name @ ''-'' @ version @ ''-'' @ goos @ ''-'' @ arch,
      name @ ''-'' @ version,
      name]"

definition extensions :: "string list" where
  "extensions = ['''', ''.exe'', ''.zip'', ''.tar.gz'', ''.tgz'', ''.wasm'']"

definition runtimeOf :: "string \<Rightarrow> string" where
  "runtimeOf ext = (if sublist ''wasm'' ext then ''wasm'' else ''exec'')"

text \<open>The three nested loops, innermost first. \<open>Some\<close> is the \<open>return\<close> inside the loop.\<close>

fun scanAssets ::
  "(string \<Rightarrow> string \<Rightarrow> bool) \<Rightarrow> string \<Rightarrow> string \<Rightarrow> string list \<Rightarrow> (string \<times> string) option"
where
  "scanAssets m pattern ext [] = None"
| "scanAssets m pattern ext (asset # rest) =
     (if m (pattern @ ext) asset then Some (asset, runtimeOf ext)
      else scanAssets m pattern ext rest)"

fun scanExtensions ::
  "(string \<Rightarrow> string \<Rightarrow> bool) \<Rightarrow> string \<Rightarrow> string list \<Rightarrow> string list \<Rightarrow> (string \<times> string) option"
where
  "scanExtensions m pattern [] valid = None"
| "scanExtensions m pattern (ext # exts) valid =
     (case scanAssets m pattern ext valid of
        Some r \<Rightarrow> Some r
      | None \<Rightarrow> scanExtensions m pattern exts valid)"

fun scanPatterns ::
  "(string \<Rightarrow> string \<Rightarrow> bool) \<Rightarrow> string list \<Rightarrow> string list \<Rightarrow> string list \<Rightarrow> (string \<times> string) option"
where
  "scanPatterns m [] exts valid = None"
| "scanPatterns m (pattern # pats) exts valid =
     (case scanExtensions m pattern exts valid of
        Some r \<Rightarrow> Some r
      | None \<Rightarrow> scanPatterns m pats exts valid)"

definition FindAsset ::
  "(string \<Rightarrow> string \<Rightarrow> bool) \<Rightarrow> string \<Rightarrow> string \<Rightarrow> string \<Rightarrow> string \<Rightarrow> string \<Rightarrow> string list
     \<Rightarrow> find_error + (string \<times> string)"
where
  "FindAsset m pfx name version goos arch assets =
     (let validAssets = filter (validAsset name) assets in
      if length validAssets = 0 then Inl NoValidAssets
      else case scanPatterns m (patterns name version goos arch) extensions validAssets of
             Some r \<Rightarrow> Inr r
           | None \<Rightarrow> Inl NoMatchingAssets)"

subsection \<open>The glob matcher of the standard library\<close>

text \<open>
  A model of Go's \<open>filepath.Match\<close> on Unix, used to run \<open>FindAsset\<close> on concrete
  inputs: a pattern is cut into chunks at each unescaped \<open>*\<close> outside a character
  class; a chunk is matched left to right (\<open>?\<close>, \<open>[...]\<close> classes, backslash escapes,
  literals); a \<open>*\<close> before a chunk lets the chunk start at any later position that does
  not cross a \<open>/\<close>. A malformed pattern gives \<open>BadPattern\<close>, which \<open>FindAsset\<close> sees as
  "no match". Names are compared byte by byte (Go decodes UTF-8 runes for \<open>?\<close> and for
  classes; on ASCII names there is no difference).
\<close>


datatype chunk_result = Matched string | NoMatch | BadPattern

fun chunkLen :: "bool \<Rightarrow> string \<Rightarrow> nat" where
  "chunkLen inrange [] = 0"
| "chunkLen inrange (c # cs) =
     (if c = CHR 0x5C then (case cs of [] \<Rightarrow> 1 | d # ds \<Rightarrow> 2 + chunkLen inrange ds)
      else if c = CHR ''['' then 1 + chunkLen True cs
      else if c = CHR '']'' then 1 + chunkLen False cs
      else if c = CHR ''*'' \<and> \<not> inrange then 0
      else 1 + chunkLen inrange cs)"

definition getEsc :: "string \<Rightarrow> (char \<times> nat) option" where
  "getEsc chunk =
     (case chunk of
        [] \<Rightarrow> None
      | c # cs \<Rightarrow>
          if c = CHR ''-'' \<or> c = CHR '']'' then None
          else if c = CHR 0x5C then
            (case cs of [] \<Rightarrow> None | d # ds \<Rightarrow> if ds = [] then None else Some (d, 2))
          else if cs = [] then None else Some (c, 1))"

lemma getEsc_Some: "getEsc chunk = Some (lo, n) \<Longrightarrow> 0 < n \<and> n < length chunk"
  by (auto simp: getEsc_def split: list.splits if_splits)

function classLoop :: "char \<Rightarrow> nat \<Rightarrow> bool \<Rightarrow> string \<Rightarrow> (bool \<times> string) option" where
  "classLoop r nrange match chunk =
     (if chunk \<noteq> [] \<and> hd chunk = CHR '']'' \<and> 0 < nrange then Some (match, tl chunk)
      else case getEsc chunk of
             None \<Rightarrow> None
           | Some (lo, n) \<Rightarrow>
               if hd (drop n chunk) = CHR ''-'' then
                 (case getEsc (tl (drop n chunk)) of
                    None \<Rightarrow> None
                  | Some (hi, k) \<Rightarrow>
                      classLoop r (nrange + 1)
                        (match \<or> ((of_char lo :: nat) \<le> of_char r \<and> (of_char r :: nat) \<le> of_char hi))
                        (drop k (tl (drop n chunk))))
               else classLoop r (nrange + 1) (match \<or> lo = r) (drop n chunk))"
  by pat_completeness auto
termination
  by (relation "measure (\<lambda>(r, nrange, match, chunk). length chunk)")
     (auto dest!: getEsc_Some)

declare classLoop.simps [simp del]

lemma classLoop_shorter:
  "classLoop r nrange match chunk = Some (b, chunk') \<Longrightarrow> length chunk' \<le> length chunk"
proof (induction r nrange match chunk rule: classLoop.induct)
  case (1 r nrange match chunk)
  show ?case
  proof (cases "chunk \<noteq> [] \<and> hd chunk = CHR '']'' \<and> 0 < nrange")
    case True
    with "1.prems" show ?thesis by (subst (asm) classLoop.simps) auto
  next
    case False
    from "1.prems" have eq: "(case getEsc chunk of
             None \<Rightarrow> None
           | Some (lo, n) \<Rightarrow>
               if hd (drop n chunk) = CHR ''-'' then
                 (case getEsc (tl (drop n chunk)) of
                    None \<Rightarrow> None
                  | Some (hi, k) \<Rightarrow>
                      classLoop r (nrange + 1)
                        (match \<or> ((of_char lo :: nat) \<le> of_char r \<and> (of_char r :: nat) \<le> of_char hi))
                        (drop k (tl (drop n chunk))))
               else classLoop r (nrange + 1) (match \<or> lo = r) (drop n chunk)) = Some (b, chunk')"
      using False by (subst (asm) classLoop.simps) simp
    then obtain lo n where g: "getEsc chunk = Some (lo, n)"
      by (auto split: option.splits)
    show ?thesis
    proof (cases "hd (drop n chunk) = CHR ''-''")
      case True
      with eq g obtain hi k where g2: "getEsc (tl (drop n chunk)) = Some (hi, k)"
        by (auto split: option.splits)
      with eq g True have "length chunk' \<le> length (drop k (tl (drop n chunk)))"
        using "1.IH"(1) [OF False g refl True g2 refl] by simp
      then show ?thesis by simp
    next
      case F2: False
      with eq g have "length chunk' \<le> length (drop n chunk)"
        using "1.IH"(2) [OF False g refl F2] by simp
      then show ?thesis by simp
    qed
  qed
qed

function matchChunk :: "bool \<Rightarrow> string \<Rightarrow> string \<Rightarrow> chunk_result" where
  "matchChunk failed [] s = (if failed then NoMatch else Matched s)"
| "matchChunk failed (c # chunk) s =
     (if c = CHR ''['' then
        (case classLoop (if failed \<or> s = [] then CHR 0x00 else hd s) 0 False
                (if chunk \<noteq> [] \<and> hd chunk = CHR ''^'' then tl chunk else chunk) of
           None \<Rightarrow> BadPattern
         | Some (match, chunk2) \<Rightarrow>
             matchChunk (failed \<or> s = [] \<or> match = (chunk \<noteq> [] \<and> hd chunk = CHR ''^'')) chunk2
               (if failed \<or> s = [] then s else tl s))
      else if c = CHR ''?'' then
        (if failed \<or> s = [] then matchChunk True chunk s
         else matchChunk (hd s = CHR ''/'') chunk (tl s))
      else if c = CHR 0x5C then
        (case chunk of
           [] \<Rightarrow> BadPattern
         | d # chunk' \<Rightarrow>
             if failed \<or> s = [] then matchChunk True chunk' s
             else matchChunk (d \<noteq> hd s) chunk' (tl s))
      else (if failed \<or> s = [] then matchChunk True chunk s
            else matchChunk (c \<noteq> hd s) chunk (tl s)))"
  by pat_completeness auto
termination
  by (relation "measure (\<lambda>(failed, chunk, s). length chunk)")
     (auto dest!: classLoop_shorter split: if_splits)


fun starScan :: "string \<Rightarrow> bool \<Rightarrow> string \<Rightarrow> string option" where
  "starScan chunk lastChunk [] = None"
| "starScan chunk lastChunk (x # xs) =
     (if x = CHR ''/'' then None
      else case matchChunk False chunk xs of
             Matched t \<Rightarrow> if lastChunk \<and> t \<noteq> [] then starScan chunk lastChunk xs else Some t
           | NoMatch \<Rightarrow> starScan chunk lastChunk xs
           | BadPattern \<Rightarrow> None)"

lemma chunkLen_pos: "c \<noteq> CHR ''*'' \<Longrightarrow> 0 < chunkLen False (c # cs)"
  by (simp split: list.splits)

function Match :: "string \<Rightarrow> string \<Rightarrow> bool" where
  "Match [] name = (name = [])"
| "Match (c # p) name =
     (let star = (c = CHR ''*'');
          body = dropWhile (\<lambda>x. x = CHR ''*'') (c # p);
          chunk = take (chunkLen False body) body;
          rest = drop (chunkLen False body) body
      in if star \<and> chunk = [] then CHR ''/'' \<notin> set name
         else case matchChunk False chunk name of
                BadPattern \<Rightarrow> False
              | Matched t \<Rightarrow>
                  if t = [] \<or> rest \<noteq> [] then Match rest t
                  else if star then
                    (case starScan chunk (rest = []) name of
                       None \<Rightarrow> False
                     | Some t' \<Rightarrow> Match rest t')
                  else False
              | NoMatch \<Rightarrow>
                  if star then
                    (case starScan chunk (rest = []) name of
                       None \<Rightarrow> False
                     | Some t' \<Rightarrow> Match rest t')
                  else False)"
  by pat_completeness auto
termination
proof (relation "measure (\<lambda>(pattern, name). length pattern)", goal_cases)
  case 1
  show ?case by simp
next
  case (2 c p name star body chunk rest)
  then show ?case
    using length_dropWhile_le [of "\<lambda>x. x = CHR ''*''" p] chunkLen_pos [of c p]
    by (auto split: if_splits)
next
  case (3 c p name star body chunk rest)
  then show ?case
    using length_dropWhile_le [of "\<lambda>x. x = CHR ''*''" p] chunkLen_pos [of c p]
    by (auto split: if_splits)
next
  case (4 c p name star body chunk rest)
  then show ?case
    using length_dropWhile_le [of "\<lambda>x. x = CHR ''*''" p] chunkLen_pos [of c p]
    by (auto split: if_splits)
qed

subsection \<open>The search order in the words of the specification\<close>

text \<open>
  The specification describes the search as one ordered enumeration: pattern first,
  extension second, candidate third. \<open>searchOrder\<close> is that enumeration and
  \<open>firstMatch\<close> takes its first matching triple.
\<close>

definition searchOrder :: "string list \<Rightarrow> string list \<Rightarrow> string list \<Rightarrow> (string \<times> string \<times> string) list" where
  "searchOrder pats exts valid =
     concat (map (\<lambda>p. concat (map (\<lambda>e. map (\<lambda>a. (p, e, a)) valid) exts)) pats)"

definition firstMatch ::
  "(string \<Rightarrow> string \<Rightarrow> bool) \<Rightarrow> string list \<Rightarrow> string list \<Rightarrow> string list \<Rightarrow> (string \<times> string) option"
where
  "firstMatch m pats exts valid =
     (case find (\<lambda>(p, e, a). m (p @ e) a) (searchOrder pats exts valid) of
        None \<Rightarrow> None
      | Some (p, e, a) \<Rightarrow> Some (a, runtimeOf e))"

section \<open>Results on asset resolution\<close>

lemma scanAssets_mem: "scanAssets m p e as = Some (a, r) \<Longrightarrow> a \<in> set as"
  by (induction as) (auto split: if_splits)

lemma scanExtensions_mem: "scanExtensions m p es as = Some (a, r) \<Longrightarrow> a \<in> set as"
  by (induction es) (auto split: option.splits dest: scanAssets_mem)

lemma scanPatterns_mem: "scanPatterns m ps es as = Some (a, r) \<Longrightarrow> a \<in> set as"
  by (induction ps) (auto split: option.splits dest: scanExtensions_mem)

text \<open>
  Claim C6. Whenever \<open>FindAsset\<close> returns an asset name, the name starts with the requested
  plugin name and ends with none of \<open>.sha256\<close>, \<open>.asc\<close>, \<open>.sig\<close>; and when no candidate
  passes that filter, \<open>FindAsset\<close> fails with the no-candidates error.
\<close>

theorem FindAsset_filter:
  "(FindAsset m pfx name version goos arch assets = Inr (a, r) \<longrightarrow>
      a \<in> set assets \<and> prefix name a \<and> \<not> suffix ''.sha256'' a \<and> \<not> suffix ''.asc'' a
        \<and> \<not> suffix ''.sig'' a)
   \<and> ((\<forall>x \<in> set assets. \<not> validAsset name x) \<longrightarrow>
      FindAsset m pfx name version goos arch assets = Inl NoValidAssets)"
proof (intro conjI impI)
  assume ok: "FindAsset m pfx name version goos arch assets = Inr (a, r)"
  then have "a \<in> set (filter (validAsset name) assets)"
    by (auto simp: FindAsset_def Let_def split: if_splits option.splits dest: scanPatterns_mem)
  then have "a \<in> set assets" and "validAsset name a" by simp_all
  then show "a \<in> set assets" and "prefix name a" and "\<not> suffix ''.sha256'' a"
    and "\<not> suffix ''.asc'' a" and "\<not> suffix ''.sig'' a"
    by (simp_all add: validAsset_def)
next
  assume "\<forall>x \<in> set assets. \<not> validAsset name x"
  then have "filter (validAsset name) assets = []"
    by (simp add: filter_empty_conv)
  then show "FindAsset m pfx name version goos arch assets = Inl NoValidAssets"
    by (simp add: FindAsset_def)
qed

theorem FindAsset_filter_witness:
  "FindAsset Match ''dashboard'' ''tool'' ''1.0.0'' ''linux'' ''amd64'' [''tool.wasm'', ''tool.sig'']
      = Inr (''tool.wasm'', ''wasm'')
   \<and> prefix ''tool'' ''tool.wasm'' \<and> \<not> suffix ''.sig'' ''tool.wasm''
   \<and> \<not> validAsset ''tool'' ''other'' \<and> \<not> validAsset ''tool'' ''tool.sig''
   \<and> FindAsset Match ''dashboard'' ''tool'' ''1.0.0'' ''linux'' ''amd64'' [''other'', ''tool.sig'']
      = Inl NoValidAssets"
proof -
  have ok: "FindAsset Match ''dashboard'' ''tool'' ''1.0.0'' ''linux'' ''amd64'' [''tool.wasm'', ''tool.sig'']
      = Inr (''tool.wasm'', ''wasm'')"
    by code_simp
  have none: "\<not> validAsset ''tool'' ''other''" "\<not> validAsset ''tool'' ''tool.sig''"
    by (simp_all add: validAsset_def suffix_to_prefix)
  from FindAsset_filter [of Match "''dashboard''" "''tool''" "''1.0.0''" "''linux''" "''amd64''"
      "[''tool.wasm'', ''tool.sig'']" "''tool.wasm''" "''wasm''"] ok
  have a: "prefix ''tool'' ''tool.wasm'' \<and> \<not> suffix ''.sig'' ''tool.wasm''" by blast
  from FindAsset_filter [where m = Match and pfx = "''dashboard''" and name = "''tool''"
      and version = "''1.0.0''" and goos = "''linux''" and arch = "''amd64''"
      and assets = "[''other'', ''tool.sig'']"] none
  have b: "FindAsset Match ''dashboard'' ''tool'' ''1.0.0'' ''linux'' ''amd64'' [''other'', ''tool.sig'']
      = Inl NoValidAssets" by simp
  from ok a none b show ?thesis by blast
qed

lemma find_append_case:
  "find P (xs @ ys) = (case find P xs of None \<Rightarrow> find P ys | Some x \<Rightarrow> Some x)"
  by (induction xs) auto

lemma scanAssets_find:
  "scanAssets m p e as =
     (case find (\<lambda>(p, e, a). m (p @ e) a) (map (\<lambda>a. (p, e, a)) as) of
        None \<Rightarrow> None | Some (p, e, a) \<Rightarrow> Some (a, runtimeOf e))"
  by (induction as) auto

lemma scanExtensions_find:
  "scanExtensions m p es as =
     (case find (\<lambda>(p, e, a). m (p @ e) a) (concat (map (\<lambda>e. map (\<lambda>a. (p, e, a)) as) es)) of
        None \<Rightarrow> None | Some (p, e, a) \<Rightarrow> Some (a, runtimeOf e))"
  by (induction es) (auto simp: find_append_case scanAssets_find split: option.splits)

lemma scanPatterns_firstMatch: "scanPatterns m ps es as = firstMatch m ps es as"
  unfolding firstMatch_def searchOrder_def
  by (induction ps) (auto simp: find_append_case scanExtensions_find split: option.splits)

text \<open>
  Claim C5. \<open>FindAsset\<close> tries the patterns \<open>name-version-os-arch\<close>, \<open>name-version\<close>,
  \<open>name\<close> in that order, each with the extensions \<open>""\<close>, \<open>.exe\<close>, \<open>.zip\<close>, \<open>.tar.gz\<close>,
  \<open>.tgz\<close>, \<open>.wasm\<close> in that order, scanning the filtered candidates in input order, and
  returns the first match of that enumeration; on the assets
  \<open>tool-1.0.0-linux-amd64.tar.gz\<close>, \<open>tool-1.0.0.zip\<close>, \<open>tool\<close> it returns the first of
  them with the runtime \<open>exec\<close>.
\<close>

theorem FindAsset_first_match:
  "FindAsset m pfx name version goos arch assets =
     (if filter (validAsset name) assets = [] then Inl NoValidAssets
      else case find (\<lambda>(p, e, a). m (p @ e) a)
                  (searchOrder
                     [name @ ''-'' @ version @ ''-'' @ goos @ ''-'' @ arch, name @ ''-'' @ version, name]
                     ['''', ''.exe'', ''.zip'', ''.tar.gz'', ''.tgz'', ''.wasm'']
                     (filter (validAsset name) assets)) of
             None \<Rightarrow> Inl NoMatchingAssets
           | Some (p, e, a) \<Rightarrow> Inr (a, runtimeOf e))
   \<and> FindAsset Match pfx ''tool'' ''1.0.0'' ''linux'' ''amd64''
        [''tool-1.0.0-linux-amd64.tar.gz'', ''tool-1.0.0.zip'', ''tool'']
      = Inr (''tool-1.0.0-linux-amd64.tar.gz'', ''exec'')"
proof
  show "FindAsset m pfx name version goos arch assets =
     (if filter (validAsset name) assets = [] then Inl NoValidAssets
      else case find (\<lambda>(p, e, a). m (p @ e) a)
                  (searchOrder
                     [name @ ''-'' @ version @ ''-'' @ goos @ ''-'' @ arch, name @ ''-'' @ version, name]
                     ['''', ''.exe'', ''.zip'', ''.tar.gz'', ''.tgz'', ''.wasm'']
                     (filter (validAsset name) assets)) of
             None \<Rightarrow> Inl NoMatchingAssets
           | Some (p, e, a) \<Rightarrow> Inr (a, runtimeOf e))"
    by (simp add: FindAsset_def scanPatterns_firstMatch firstMatch_def patterns_def
          extensions_def split: option.splits)
  show "FindAsset Match pfx ''tool'' ''1.0.0'' ''linux'' ''amd64''
        [''tool-1.0.0-linux-amd64.tar.gz'', ''tool-1.0.0.zip'', ''tool'']
      = Inr (''tool-1.0.0-linux-amd64.tar.gz'', ''exec'')"
    by code_simp
qed

theorem FindAsset_first_match_witness:
  "FindAsset Match ''dashboard'' ''tool'' ''1.0.0'' ''linux'' ''amd64'' [''tool.sig'', ''tool.wasm'', ''tool'']
     = Inr (''tool'', ''exec'')"
proof -
  have "find (\<lambda>(p, e, a). Match (p @ e) a)
          (searchOrder
             [''tool'' @ ''-'' @ ''1.0.0'' @ ''-'' @ ''linux'' @ ''-'' @ ''amd64'',
              ''tool'' @ ''-'' @ ''1.0.0'', ''tool'']
             ['''', ''.exe'', ''.zip'', ''.tar.gz'', ''.tgz'', ''.wasm'']
             (filter (validAsset ''tool'') [''tool.sig'', ''tool.wasm'', ''tool'']))
        = Some (''tool'', '''', ''tool'')"
    by code_simp
  moreover have "filter (validAsset ''tool'') [''tool.sig'', ''tool.wasm'', ''tool'']
        = [''tool.wasm'', ''tool'']"
    by code_simp
  moreover have "runtimeOf '''' = ''exec''"
    by code_simp
  ultimately show ?thesis
    using FindAsset_first_match [of Match "''dashboard''" "''tool''" "''1.0.0''" "''linux''"
        "''amd64''" "[''tool.sig'', ''tool.wasm'', ''tool'']"]
    by simp
qed

section \<open>Paths\<close>

text \<open>
  Paths are Go strings. \<open>Clean\<close>, \<open>Join\<close> and \<open>Dir\<close> model \<open>filepath.Clean\<close>,
  \<open>filepath.Join\<close> and \<open>filepath.Dir\<close> of Go's standard library on Unix: \<open>Clean\<close>
  drops empty and \<open>.\<close> elements, resolves \<open>..\<close> against the element before it (at the
  root it is dropped, at the start of a relative path it is kept) and returns \<open>.\<close> for
  an empty result; \<open>Join\<close> skips leading empty elements, joins the rest with \<open>/\<close> and
  cleans the result; \<open>Dir\<close> cleans the path up to its last separator. \<open>parentOf\<close> is
  the parent that \<open>os.MkdirAll\<close> computes: the path without its last element and
  without the separators before it. \<open>render\<close> writes a list of elements as a path, the
  way \<open>Clean\<close> does at its end.
\<close>

fun splitSlash :: "string \<Rightarrow> string list" where
  "splitSlash [] = [[]]"
| "splitSlash (c # cs) =
     (if c = CHR ''/'' then [] # splitSlash cs
      else (case splitSlash cs of w # ws \<Rightarrow> (c # w) # ws | [] \<Rightarrow> [[c]]))"

fun joinSlash :: "string list \<Rightarrow> string" where
  "joinSlash [] = []"
| "joinSlash [w] = w"
| "joinSlash (w # ws) = w @ ''/'' @ joinSlash ws"

definition cleanStep :: "bool \<Rightarrow> string list \<Rightarrow> string \<Rightarrow> string list" where
  "cleanStep rooted out elem =
     (if elem = [] \<or> elem = ''.'' then out
      else if elem = ''..'' then
        (if out \<noteq> [] \<and> last out \<noteq> ''..'' then butlast out
         else if rooted then out
         else out @ [''..''])
      else out @ [elem])"

definition Clean :: "string \<Rightarrow> string" where
  "Clean path =
     (if path = [] then ''.''
      else let rooted = (hd path = CHR ''/'');
               out = foldl (cleanStep rooted) [] (splitSlash path)
           in if rooted then ''/'' @ joinSlash out
              else if out = [] then ''.'' else joinSlash out)"

definition render :: "bool \<Rightarrow> string list \<Rightarrow> string" where
  "render r cs = (if r then ''/'' @ joinSlash cs else if cs = [] then ''.'' else joinSlash cs)"

definition Join :: "string list \<Rightarrow> string" where
  "Join elem =
     (case dropWhile (\<lambda>e. e = []) elem of
        [] \<Rightarrow> []
      | es \<Rightarrow> Clean (joinSlash es))"

definition Dir :: "string \<Rightarrow> string" where
  "Dir path = Clean (rev (dropWhile (\<lambda>c. c \<noteq> CHR ''/'') (rev path)))"

definition parentOf :: "string \<Rightarrow> string" where
  "parentOf path =
     (let b = dropWhile (\<lambda>c. c \<noteq> CHR ''/'') (dropWhile (\<lambda>c. c = CHR ''/'') (rev path));
          c = dropWhile (\<lambda>c. c = CHR ''/'') b
      in if b = [] then [] else if c = [] then ''/'' else rev c)"

section \<open>The file system\<close>

text \<open>
  The file system is a finite table from paths to nodes, read through \<open>lookup\<close>; a node
  is a directory or a regular file with its bytes. \<open>inside d q\<close> says that \<open>q\<close> is \<open>d\<close> or
  lies below it (the root directory \<open>/\<close> itself is not used as a plugin root or plugin
  directory). The operations model the calls of package \<open>os\<close> that the manager makes.
  Each takes the fault oracle \<open>flt\<close> of the environment: a call the oracle marks fails
  with an I/O error and changes nothing, so that every error branch of the manager can be
  reached; besides, a call fails where the state of the file system demands it (a
  missing file, which is reported as such before any fault, a directory in place of a
  file, a missing parent directory, a non-empty rename target).
  \<open>os.OpenFile\<close> is modelled for the flags the code passes, \<open>O_CREATE|O_WRONLY\<close>: an
  existing file keeps its bytes, and \<open>io_Copy\<close> then writes from offset 0 over them.
  Every path but one that the manager passes comes out of \<open>Join\<close>, is clean, and is
  looked up in the table as it is. The exception is the plugin root that \<open>List\<close> hands
  to \<open>os.ReadDir\<close> as it was configured: \<open>resolve\<close> follows it element by element as
  the system does, without cleaning it first. It starts at \<open>/\<close> or at the working
  directory, which exist, as do the directories above the working directory; an empty
  element is skipped; every other element, also \<open>.\<close> and \<open>..\<close>, needs the place reached so
  far to be a directory, failing with \<open>ENOENT\<close> when it is missing and with \<open>ENOTDIR\<close>
  when it is a regular file; \<open>..\<close> then steps to the parent and a name to the child. The place reached at the end must be a directory
  in the same way. There are no symbolic links, so a resolution that succeeds ends at
  the cleaned path. \<open>os.ReadDir\<close> returns the entries of that directory sorted by name:
  the names, other than \<open>.\<close> and \<open>..\<close>, of the paths of the table that are one element
  below it, which are the paths that consist of \<open>slashed d\<close> and a name. The error
  \<open>EOTHER\<close> stands for every error that, like \<open>ENOTDIR\<close>, is not of the kind
  \<open>os.IsNotExist\<close> recognises.
\<close>

datatype node = DirNode | FileNode string

type_synonym fs = "(string \<times> node) list"

definition lookup :: "fs \<Rightarrow> string \<Rightarrow> node option" where
  "lookup fs p = map_of fs p"

definition put :: "string \<Rightarrow> node \<Rightarrow> fs \<Rightarrow> fs" where
  "put p n fs = (p, n) # filter (\<lambda>(k, v). k \<noteq> p) fs"

definition under :: "string \<Rightarrow> string \<Rightarrow> bool" where
  "under d q \<longleftrightarrow> prefix (d @ ''/'') q"

definition inside :: "string \<Rightarrow> string \<Rightarrow> bool" where
  "inside d q \<longleftrightarrow> q = d \<or> under d q"

definition removeTree :: "string \<Rightarrow> fs \<Rightarrow> fs" where
  "removeTree p fs = filter (\<lambda>(k, v). \<not> inside p k) fs"

definition moveTree :: "string \<Rightarrow> string \<Rightarrow> fs \<Rightarrow> fs" where
  "moveTree old new fs =
     map (\<lambda>(k, v). if inside old k then (new @ drop (length old) k, v) else (k, v))
       (filter (\<lambda>(k, v). inside old k \<or> \<not> inside new k) fs)"

datatype syscall =
    SysStat string | SysMkdirAll string | SysRemoveAll string | SysOpenFile string
  | SysWrite string | SysWriteFile string | SysReadFile string | SysReadDir string
  | SysRename string string | SysCreateTemp | SysTempWrite | SysTempStat

datatype oserr = ENOENT | ENOTDIR | EOTHER

definition os_Stat :: "(syscall \<Rightarrow> bool) \<Rightarrow> string \<Rightarrow> fs \<Rightarrow> oserr option" where
  "os_Stat flt p fs =
     (if p = [] then Some ENOENT
      else case lookup fs p of
             None \<Rightarrow> Some ENOENT
           | Some n \<Rightarrow> if flt (SysStat p) then Some EOTHER else None)"

lemma parentOf_shorter: "parentOf p \<noteq> [] \<Longrightarrow> length (parentOf p) < length p"
proof -
  define a where "a = dropWhile (\<lambda>c. c = CHR ''/'') (rev p)"
  define b where "b = dropWhile (\<lambda>c. c \<noteq> CHR ''/'') a"
  define c where "c = dropWhile (\<lambda>c. c = CHR ''/'') b"
  have par: "parentOf p = (if b = [] then [] else if c = [] then ''/'' else rev c)"
    unfolding parentOf_def Let_def a_def b_def c_def by (rule refl)
  assume "parentOf p \<noteq> []"
  with par have b: "b \<noteq> []" by (simp split: if_splits)
  then have a: "a \<noteq> []" by (auto simp: b_def)
  then obtain x a' where xa: "a = x # a'" by (cases a) auto
  have "\<not> (hd a = CHR ''/'')"
    using a unfolding a_def by (rule hd_dropWhile)
  with xa have "x \<noteq> CHR ''/''" by simp
  with xa have "b = dropWhile (\<lambda>c. c \<noteq> CHR ''/'') a'" by (simp add: b_def)
  then have "length b \<le> length a'" by (simp add: length_dropWhile_le)
  with xa have ba: "length b < length a" by simp
  have ap: "length a \<le> length p"
    using length_dropWhile_le [of "\<lambda>c. c = CHR ''/''" "rev p"] by (simp add: a_def)
  have cb: "length c \<le> length b" by (simp add: c_def length_dropWhile_le)
  from b have b1: "1 \<le> length b" by (cases b) auto
  show ?thesis
  proof (cases "c = []")
    case True
    with b par have "length (parentOf p) = 1" by simp
    with ba ap b1 show ?thesis by linarith
  next
    case False
    with b par have "length (parentOf p) = length c" by simp
    with ba ap cb show ?thesis by linarith
  qed
qed

function mkdirAll :: "string \<Rightarrow> fs \<Rightarrow> fs \<times> bool" where
  "mkdirAll p fs =
     (case lookup fs p of
        Some DirNode \<Rightarrow> (fs, True)
      | Some (FileNode d) \<Rightarrow> (fs, False)
      | None \<Rightarrow>
          if parentOf p = [] then (put p DirNode fs, True)
          else (case mkdirAll (parentOf p) fs of
                  (fs', False) \<Rightarrow> (fs', False)
                | (fs', True) \<Rightarrow> (put p DirNode fs', True)))"
  by pat_completeness auto
termination
  by (relation "measure (\<lambda>(p, fs). length p)") (auto simp: parentOf_shorter)

declare mkdirAll.simps [simp del]

definition os_MkdirAll :: "(syscall \<Rightarrow> bool) \<Rightarrow> string \<Rightarrow> fs \<Rightarrow> fs \<times> bool" where
  "os_MkdirAll flt p fs = (if flt (SysMkdirAll p) \<or> p = [] then (fs, False) else mkdirAll p fs)"

definition os_RemoveAll :: "(syscall \<Rightarrow> bool) \<Rightarrow> string \<Rightarrow> fs \<Rightarrow> fs \<times> bool" where
  "os_RemoveAll flt p fs =
     (if p = [] then (fs, True)
      else if flt (SysRemoveAll p) then (fs, False)
      else (removeTree p fs, True))"

definition creatable :: "fs \<Rightarrow> string \<Rightarrow> bool" where
  "creatable fs p \<longleftrightarrow>
     (case lookup fs p of
        Some DirNode \<Rightarrow> False
      | Some (FileNode d) \<Rightarrow> True
      | None \<Rightarrow> p \<noteq> [] \<and> (parentOf p = [] \<or> lookup fs (parentOf p) = Some DirNode))"

definition os_OpenFile :: "(syscall \<Rightarrow> bool) \<Rightarrow> string \<Rightarrow> fs \<Rightarrow> fs \<times> bool" where
  "os_OpenFile flt p fs =
     (if flt (SysOpenFile p) \<or> \<not> creatable fs p then (fs, False)
      else case lookup fs p of
             None \<Rightarrow> (put p (FileNode []) fs, True)
           | Some n \<Rightarrow> (fs, True))"

definition os_WriteFile :: "(syscall \<Rightarrow> bool) \<Rightarrow> string \<Rightarrow> string \<Rightarrow> fs \<Rightarrow> fs \<times> bool" where
  "os_WriteFile flt p d fs =
     (if flt (SysWriteFile p) \<or> \<not> creatable fs p then (fs, False)
      else (put p (FileNode d) fs, True))"

definition os_ReadFile :: "(syscall \<Rightarrow> bool) \<Rightarrow> string \<Rightarrow> fs \<Rightarrow> oserr + string" where
  "os_ReadFile flt p fs =
     (if p = [] then Inl ENOENT
      else case lookup fs p of
             None \<Rightarrow> Inl ENOENT
           | Some DirNode \<Rightarrow> Inl EOTHER
           | Some (FileNode d) \<Rightarrow> if flt (SysReadFile p) then Inl EOTHER else Inr d)"

definition renameOk :: "fs \<Rightarrow> string \<Rightarrow> string \<Rightarrow> bool" where
  "renameOk fs old new \<longleftrightarrow>
     old \<noteq> [] \<and> new \<noteq> [] \<and> lookup fs old \<noteq> None \<and> \<not> under old new \<and>
     (case lookup fs new of
        None \<Rightarrow> True
      | Some DirNode \<Rightarrow> lookup fs old = Some DirNode \<and> list_all (\<lambda>(k, v). \<not> under new k) fs
      | Some (FileNode d) \<Rightarrow> lookup fs old \<noteq> Some DirNode)"

definition os_Rename :: "(syscall \<Rightarrow> bool) \<Rightarrow> string \<Rightarrow> string \<Rightarrow> fs \<Rightarrow> fs \<times> bool" where
  "os_Rename flt old new fs =
     (if flt (SysRename old new) \<or> \<not> renameOk fs old new then (fs, False)
      else (moveTree old new fs, True))"

definition slashed :: "string \<Rightarrow> string" where
  "slashed d = (if d = ''/'' then ''/'' else if d = ''.'' then [] else d @ ''/'')"

definition childName :: "string \<Rightarrow> string \<Rightarrow> string option" where
  "childName d k =
     (let c = drop (length (slashed d)) k in
      if prefix (slashed d) k \<and> c \<noteq> [] \<and> CHR ''/'' \<notin> set c \<and> c \<noteq> ''.'' \<and> c \<noteq> ''..''
      then Some c else None)"

definition dirEntries :: "string \<Rightarrow> fs \<Rightarrow> (string \<times> bool) list" where
  "dirEntries d fs =
     map (\<lambda>c. (c, lookup fs (slashed d @ c) = Some DirNode))
       (sort (remdups (List.map_filter (\<lambda>(k, v). childName d k) fs)))"

fun walk :: "fs \<Rightarrow> bool \<Rightarrow> string list \<Rightarrow> string list \<Rightarrow> oserr + string" where
  "walk fs rooted out [] =
     (case (if list_all (\<lambda>c. c = ''..'') out then Some DirNode
            else lookup fs (render rooted out)) of
        None \<Rightarrow> Inl ENOENT
      | Some (FileNode d) \<Rightarrow> Inl ENOTDIR
      | Some DirNode \<Rightarrow> Inr (render rooted out))"
| "walk fs rooted out (elem # rest) =
     (if elem = [] then walk fs rooted out rest
      else case (if list_all (\<lambda>c. c = ''..'') out then Some DirNode
                 else lookup fs (render rooted out)) of
             None \<Rightarrow> Inl ENOENT
           | Some (FileNode d) \<Rightarrow> Inl ENOTDIR
           | Some DirNode \<Rightarrow> walk fs rooted (cleanStep rooted out elem) rest)"

definition resolve :: "fs \<Rightarrow> string \<Rightarrow> oserr + string" where
  "resolve fs p =
     (if p = [] then Inl ENOENT else walk fs (hd p = CHR ''/'') [] (splitSlash p))"

definition os_ReadDir :: "(syscall \<Rightarrow> bool) \<Rightarrow> string \<Rightarrow> fs \<Rightarrow> oserr + (string \<times> bool) list" where
  "os_ReadDir flt p fs =
     (case resolve fs p of
        Inl x \<Rightarrow> Inl x
      | Inr d \<Rightarrow> if flt (SysReadDir p) then Inl EOTHER else Inr (dirEntries d fs))"

definition fileBytes :: "fs \<Rightarrow> string \<Rightarrow> string" where
  "fileBytes fs p = (case lookup fs p of Some (FileNode d) \<Rightarrow> d | Some DirNode \<Rightarrow> [] | None \<Rightarrow> [])"

subsection \<open>Lookup after each operation\<close>

lemma lookup_put: "lookup (put p n fs) q = (if q = p then Some n else lookup fs q)"
  by (induction fs) (auto simp: lookup_def put_def)

lemma lookup_removeTree: "lookup (removeTree p fs) q = (if inside p q then None else lookup fs q)"
  by (induction fs) (auto simp: lookup_def removeTree_def)

lemma inside_append: "inside d q \<Longrightarrow> d @ drop (length d) q = q"
  by (auto simp: inside_def under_def prefix_def)

lemma inside_move: "inside old k \<Longrightarrow> inside new (new @ drop (length old) k)"
  by (auto simp: inside_def under_def prefix_def)

lemma move_back: "inside old k \<Longrightarrow> old @ drop (length new) (new @ drop (length old) k) = k"
  by (auto simp: inside_def under_def prefix_def)

lemma moveTree_Cons:
  "moveTree old new ((k, v) # fs) =
      (if inside old k then (new @ drop (length old) k, v) # moveTree old new fs
       else if \<not> inside new k then (k, v) # moveTree old new fs
       else moveTree old new fs)"
  by (simp add: moveTree_def)

lemma moved_key_eq:
  "inside old k \<Longrightarrow>
     q = new @ drop (length old) k \<longleftrightarrow> inside new q \<and> old @ drop (length new) q = k"
  using inside_move [of old k new] move_back [of old k new] move_back [of new q old]
  by auto

lemma lookup_moveTree:
  "lookup (moveTree old new fs) q =
     (if inside new q then lookup fs (old @ drop (length new) q)
      else if inside old q then None else lookup fs q)"
proof (induction fs)
  case Nil
  then show ?case by (simp add: lookup_def moveTree_def)
next
  case (Cons a fs)
  obtain k v where a: "a = (k, v)" by (cases a)
  let ?R = "\<lambda>t. (if inside new q then map_of t (old @ drop (length new) q)
      else if inside old q then None else map_of t q)"
  have IH: "map_of (moveTree old new fs) q = ?R fs"
    using Cons.IH by (simp add: lookup_def)
  have goal: "map_of (moveTree old new ((k, v) # fs)) q = ?R ((k, v) # fs)"
  proof (cases "inside old k")
    case True
    then have mt: "moveTree old new ((k, v) # fs) = (new @ drop (length old) k, v) # moveTree old new fs"
      by (simp add: moveTree_Cons)
    show ?thesis
    proof (cases "q = new @ drop (length old) k")
      case eq: True
      with True have "inside new q" "old @ drop (length new) q = k"
        using moved_key_eq [of old k q new] by blast+
      then show ?thesis unfolding mt using eq by simp
    next
      case ne: False
      with True have *: "\<not> (inside new q \<and> old @ drop (length new) q = k)"
        using moved_key_eq [of old k q new] by blast
      have lhs: "map_of (moveTree old new ((k, v) # fs)) q = ?R fs"
        unfolding mt using ne IH by simp
      have rhs: "?R ((k, v) # fs) = ?R fs"
      proof (cases "inside new q")
        case T: True
        with * have "old @ drop (length new) q \<noteq> k" by blast
        with T show ?thesis by simp
      next
        case F: False
        show ?thesis
        proof (cases "inside old q")
          case True
          with F show ?thesis by simp
        next
          case F2: False
          with True have "q \<noteq> k" by blast
          with F F2 show ?thesis by simp
        qed
      qed
      from lhs rhs show ?thesis by simp
    qed
  next
    case False
    have nk: "inside new q \<Longrightarrow> old @ drop (length new) q \<noteq> k"
      using False inside_move [of new q old] by blast
    show ?thesis
    proof (cases "inside new k")
      case True
      with False have mt: "moveTree old new ((k, v) # fs) = moveTree old new fs"
        by (simp add: moveTree_Cons)
      have rhs: "?R ((k, v) # fs) = ?R fs"
      proof (cases "inside new q")
        case T: True
        with nk show ?thesis by simp
      next
        case F: False
        with True have "q \<noteq> k" by blast
        with F show ?thesis by simp
      qed
      show ?thesis unfolding mt rhs by (rule IH)
    next
      case F1: False
      with False have mt: "moveTree old new ((k, v) # fs) = (k, v) # moveTree old new fs"
        by (simp add: moveTree_Cons)
      show ?thesis
      proof (cases "q = k")
        case True
        with False F1 show ?thesis unfolding mt by simp
      next
        case ne: False
        have rhs: "?R ((k, v) # fs) = ?R fs"
        proof (cases "inside new q")
          case T: True
          with nk show ?thesis by simp
        next
          case F: False
          with ne show ?thesis by simp
        qed
        have "map_of ((k, v) # moveTree old new fs) q = map_of (moveTree old new fs) q"
          using ne by simp
        then show ?thesis unfolding mt rhs using IH by simp
      qed
    qed
  qed
  then show ?case by (simp add: lookup_def a)
qed

section \<open>Plugin records, content and the environment\<close>

text \<open>
  \<open>Info\<close> is the struct of the same name; its \<open>Metadata\<close> map is an association list
  and its \<open>Content\<close> (an empty interface in Go) is one of the three kinds that
  \<open>writePluginFiles\<close> accepts, or something else. A \<open>reader\<close> is an \<open>io.Reader\<close>: the
  bytes it delivers, whether a read error follows them, and whether it can seek.

  The record \<open>env\<close> gathers what the manager takes from outside: the cancellation
  state of the context at each point where the code consults it, the fault oracle of
  the file system, the store's \<open>Fetch\<close> (\<open>None\<close> is its error), \<open>http.DetectContentType\<close>,
  \<open>json.MarshalIndent\<close> and \<open>json.Unmarshal\<close> on \<open>Info\<close>, the decompressors, the
  archive readers (the entries of a tar stream and whether the stream ends in an error;
  the files of a zip archive) and the clock.
\<close>

datatype seeker = NotSeeker | SeekOk | SeekFails

record reader =
  rbytes :: string
  rfails :: bool
  rseek :: seeker

datatype content = CString string | CBytes string | CReader reader | COther

record Info =
  Name :: string
  FileName :: string
  Version :: string
  Description :: string
  Store :: string
  Runtime :: string
  Metadata :: "(string \<times> string) list"
  Status :: string
  Content :: content

datatype tar_type = TypeDir | TypeReg | TypeOther

record tar_entry =
  tname :: string
  ttype :: tar_type
  tdata :: string
  tdata_fails :: bool

record zip_entry =
  zname :: string
  zisdir :: bool
  zopen_fails :: bool
  zdata :: string
  zdata_fails :: bool

datatype processor =
  ExtractGz | ExtractTar | ExtractZip | ExtractXz | ExtractBzip2 | ExtractLz4 | ExtractBrotli

datatype ctx_point = CtxEntry | CtxStage nat

record env =
  cancelled :: "ctx_point \<Rightarrow> bool"
  fault :: "syscall \<Rightarrow> bool"
  fetch :: "string \<Rightarrow> string \<Rightarrow> Info option"
  detectContentType :: "string \<Rightarrow> string"
  marshalIndent :: "Info \<Rightarrow> string option"
  unmarshal :: "string \<Rightarrow> Info option"
  decompress :: "processor \<Rightarrow> reader \<Rightarrow> reader option"
  tarEntries :: "reader \<Rightarrow> tar_entry list \<times> bool"
  zipFiles :: "reader \<Rightarrow> zip_entry list option"
  now :: string

datatype error =
    CancelledBeforeInstall | NoPluginDirectory | AlreadyInstalled | CreatePluginDirFailed
  | FetchFailed | InstallFailed error | MarshalFailed | SaveMetadataFailed
  | CreatePluginSpecificDirFailed | ReadForDetectionFailed | SeekBackFailed
  | UnsupportedDataType | CreatePluginFileFailed | WritePluginDataFailed
  | ProcessFileFailed error | ProcessingCancelled | ProcessingFailed error
  | CreateReaderFailed processor | ReadTarHeaderFailed | InvalidTarPath string
  | CreateDirectoryFailed | CreateFileFailed | WriteFileFailed
  | CreateTempFailed | WriteZipContentFailed | ZipFileInfoFailed | CreateZipReaderFailed
  | InvalidZipPath string | OpenZipFileFailed
  | CancelledBeforeEnable | CancelledBeforeDisable | ReadMetadataFailed | ParseMetadataFailed
  | CancelledBeforeList | ReadPluginDirFailed | ReadMetadataFor string | ParseMetadataFor string
  | CancelledBeforeUpgrade | NotInstalled | ReadCurrentMetadataFailed | AlreadyAtVersion
  | CreateTmpDirFailed | FetchUpgradeFailed | WriteUpgradedFailed error | WriteMetadataFailed
  | BackupFailed | InstallUpgradeFailed

datatype 'a result = Ok 'a | Err error | Panic

section \<open>Extraction\<close>

text \<open>
  \<open>extractTarLoop\<close> and \<open>extractZipLoop\<close> are the loops of \<open>extractTar\<close> and
  \<open>extractZip\<close> over the entries of the archive, with the path check as the code
  writes it: \<open>strings.HasPrefix(target, destDir)\<close>. Both extractors return a nil reader
  on success (\<open>Ok None\<close>); \<open>processFile\<close> passes it on, and \<open>writePluginFiles\<close> then
  calls \<open>io.Copy\<close> with that nil reader, which dereferences it: the outcome \<open>Panic\<close>.
\<close>

definition io_Copy :: "(syscall \<Rightarrow> bool) \<Rightarrow> string \<Rightarrow> string \<Rightarrow> bool \<Rightarrow> fs \<Rightarrow> fs \<times> bool" where
  "io_Copy flt p bytes fails fs =
     (case lookup fs p of
        Some (FileNode old) \<Rightarrow>
          if bytes = [] then (fs, \<not> fails)
          else if flt (SysWrite p) then (fs, False)
          else (put p (FileNode (bytes @ drop (length bytes) old)) fs, \<not> fails)
      | Some DirNode \<Rightarrow> (fs, False)
      | None \<Rightarrow> (fs, False))"

fun extractTarLoop ::
  "(syscall \<Rightarrow> bool) \<Rightarrow> string \<Rightarrow> tar_entry list \<Rightarrow> bool \<Rightarrow> fs \<Rightarrow> fs \<times> unit result"
where
  "extractTarLoop flt destDir [] endErr fs =
     (fs, if endErr then Err ReadTarHeaderFailed else Ok ())"
| "extractTarLoop flt destDir (header # rest) endErr fs =
     (let target = Join [destDir, Clean (tname header)] in
      if \<not> prefix destDir target then (fs, Err (InvalidTarPath (tname header)))
      else case ttype header of
        TypeDir \<Rightarrow>
          (case os_MkdirAll flt target fs of
             (fs1, False) \<Rightarrow> (fs1, Err CreateDirectoryFailed)
           | (fs1, True) \<Rightarrow> extractTarLoop flt destDir rest endErr fs1)
      | TypeReg \<Rightarrow>
          (case os_MkdirAll flt (Dir target) fs of
             (fs1, False) \<Rightarrow> (fs1, Err CreateDirectoryFailed)
           | (fs1, True) \<Rightarrow>
               (case os_OpenFile flt target fs1 of
                  (fs2, False) \<Rightarrow> (fs2, Err CreateFileFailed)
                | (fs2, True) \<Rightarrow>
                    (case io_Copy flt target (tdata header) (tdata_fails header) fs2 of
                       (fs3, False) \<Rightarrow> (fs3, Err WriteFileFailed)
                     | (fs3, True) \<Rightarrow> extractTarLoop flt destDir rest endErr fs3)))
      | TypeOther \<Rightarrow> extractTarLoop flt destDir rest endErr fs)"

definition extractTar :: "env \<Rightarrow> reader \<Rightarrow> string \<Rightarrow> fs \<Rightarrow> fs \<times> reader option result" where
  "extractTar e r destDir fs =
     (case extractTarLoop (fault e) destDir (fst (tarEntries e r)) (snd (tarEntries e r)) fs of
        (fs', Ok u) \<Rightarrow> (fs', Ok None)
      | (fs', Err x) \<Rightarrow> (fs', Err x)
      | (fs', Panic) \<Rightarrow> (fs', Panic))"

fun extractZipLoop :: "(syscall \<Rightarrow> bool) \<Rightarrow> string \<Rightarrow> zip_entry list \<Rightarrow> fs \<Rightarrow> fs \<times> unit result" where
  "extractZipLoop flt destDir [] fs = (fs, Ok ())"
| "extractZipLoop flt destDir (file # rest) fs =
     (let target = Join [destDir, Clean (zname file)] in
      if \<not> prefix destDir target then (fs, Err (InvalidZipPath (zname file)))
      else if zisdir file then
        (case os_MkdirAll flt target fs of
           (fs1, False) \<Rightarrow> (fs1, Err CreateDirectoryFailed)
         | (fs1, True) \<Rightarrow> extractZipLoop flt destDir rest fs1)
      else
        (case os_MkdirAll flt (Dir target) fs of
           (fs1, False) \<Rightarrow> (fs1, Err CreateDirectoryFailed)
         | (fs1, True) \<Rightarrow>
             (case os_OpenFile flt target fs1 of
                (fs2, False) \<Rightarrow> (fs2, Err CreateFileFailed)
              | (fs2, True) \<Rightarrow>
                  if zopen_fails file then (fs2, Err OpenZipFileFailed)
                  else (case io_Copy flt target (zdata file) (zdata_fails file) fs2 of
                          (fs3, False) \<Rightarrow> (fs3, Err WriteFileFailed)
                        | (fs3, True) \<Rightarrow> extractZipLoop flt destDir rest fs3))))"

definition extractZip :: "env \<Rightarrow> reader \<Rightarrow> string \<Rightarrow> fs \<Rightarrow> fs \<times> reader option result" where
  "extractZip e r destDir fs =
     (if fault e SysCreateTemp then (fs, Err CreateTempFailed)
      else if rfails r \<or> (rbytes r \<noteq> [] \<and> fault e SysTempWrite) then (fs, Err WriteZipContentFailed)
      else if fault e SysTempStat then (fs, Err ZipFileInfoFailed)
      else case zipFiles e r of
             None \<Rightarrow> (fs, Err CreateZipReaderFailed)
           | Some files \<Rightarrow>
               (case extractZipLoop (fault e) destDir files fs of
                  (fs', Ok u) \<Rightarrow> (fs', Ok None)
                | (fs', Err x) \<Rightarrow> (fs', Err x)
                | (fs', Panic) \<Rightarrow> (fs', Panic)))"

definition fileProcessorMap :: "string \<Rightarrow> processor list option" where
  "fileProcessorMap contentType =
     (if contentType = ''application/gzip'' then Some [ExtractGz, ExtractTar]
      else if contentType = ''application/x-gzip'' then Some [ExtractGz, ExtractTar]
      else if contentType = ''application/zip'' then Some [ExtractZip]
      else if contentType = ''application/x-xz'' then Some [ExtractXz, ExtractTar]
      else if contentType = ''application/x-bzip2'' then Some [ExtractBzip2, ExtractTar]
      else if contentType = ''application/x-lz4'' then Some [ExtractLz4, ExtractTar]
      else if contentType = ''application/x-brotli'' then Some [ExtractBrotli, ExtractTar]
      else None)"

definition runProcessor ::
  "env \<Rightarrow> processor \<Rightarrow> reader \<Rightarrow> string \<Rightarrow> fs \<Rightarrow> fs \<times> reader option result"
where
  "runProcessor e process r destDir fs =
     (case process of
        ExtractTar \<Rightarrow> extractTar e r destDir fs
      | ExtractZip \<Rightarrow> extractZip e r destDir fs
      | p \<Rightarrow> (case decompress e process r of
                None \<Rightarrow> (fs, Err (CreateReaderFailed process))
              | Some r' \<Rightarrow> (fs, Ok (Some r'))))"

fun processFile ::
  "env \<Rightarrow> nat \<Rightarrow> reader \<Rightarrow> string \<Rightarrow> processor list \<Rightarrow> fs \<Rightarrow> fs \<times> reader option result"
where
  "processFile e k r destDir [] fs = (fs, Ok (Some r))"
| "processFile e k r destDir (process # rest) fs =
     (if cancelled e (CtxStage k) then (fs, Err ProcessingCancelled)
      else case runProcessor e process r destDir fs of
             (fs', Err x) \<Rightarrow> (fs', Err (ProcessingFailed x))
           | (fs', Panic) \<Rightarrow> (fs', Panic)
           | (fs', Ok None) \<Rightarrow> (fs', Ok None)
           | (fs', Ok (Some processed)) \<Rightarrow> processFile e (Suc k) processed destDir rest fs')"

definition contentReader :: "content \<Rightarrow> reader option" where
  "contentReader c =
     (case c of
        CString v \<Rightarrow> Some \<lparr>rbytes = v, rfails = False, rseek = SeekOk\<rparr>
      | CBytes v \<Rightarrow> Some \<lparr>rbytes = v, rfails = False, rseek = SeekOk\<rparr>
      | CReader r \<Rightarrow> Some r
      | COther \<Rightarrow> None)"

definition sniffError :: "content \<Rightarrow> error option" where
  "sniffError c =
     (case c of
        CReader v \<Rightarrow>
          if rbytes v = [] \<and> rfails v then Some ReadForDetectionFailed
          else if rseek v = SeekFails then Some SeekBackFailed
          else None
      | x \<Rightarrow> None)"

definition writePluginFiles :: "env \<Rightarrow> string \<Rightarrow> Info \<Rightarrow> fs \<Rightarrow> fs \<times> unit result" where
  "writePluginFiles e dir info fs =
     (let plugindir = Join [dir, Name info] in
      case os_MkdirAll (fault e) plugindir fs of
        (fs1, False) \<Rightarrow> (fs1, Err CreatePluginSpecificDirFailed)
      | (fs1, True) \<Rightarrow>
          (case contentReader (Content info) of
             None \<Rightarrow> (fs1, Err UnsupportedDataType)
           | Some r \<Rightarrow>
              (case sniffError (Content info) of
                 Some x \<Rightarrow> (fs1, Err x)
               | None \<Rightarrow>
                 (let contentType = detectContentType e (take 512 (rbytes r));
                      binPath = Join [plugindir, FileName info] in
                  case os_OpenFile (fault e) binPath fs1 of
                    (fs2, False) \<Rightarrow> (fs2, Err CreatePluginFileFailed)
                  | (fs2, True) \<Rightarrow>
                      (case fileProcessorMap contentType of
                         None \<Rightarrow>
                           (case io_Copy (fault e) binPath (rbytes r) (rfails r) fs2 of
                              (fs3, False) \<Rightarrow> (fs3, Err WritePluginDataFailed)
                            | (fs3, True) \<Rightarrow> (fs3, Ok ()))
                       | Some processors \<Rightarrow>
                           (case processFile e 0 r plugindir processors fs2 of
                              (fs3, Err x) \<Rightarrow> (fs3, Err (ProcessFileFailed x))
                            | (fs3, Panic) \<Rightarrow> (fs3, Panic)
                            | (fs3, Ok None) \<Rightarrow> (fs3, Panic)
                            | (fs3, Ok (Some final)) \<Rightarrow>
                                (case io_Copy (fault e) binPath (rbytes final) (rfails final) fs3 of
                                   (fs4, False) \<Rightarrow> (fs4, Err WritePluginDataFailed)
                                 | (fs4, True) \<Rightarrow> (fs4, Ok ()))))))))"

section \<open>The lifecycle manager\<close>

text \<open>
  Each method of \<open>Manager\<close> takes the environment, the manager's plugin root and the
  file system, and returns the file system it leaves with its outcome. The mutex is
  not modelled: one call runs at a time. A deferred call is applied to the result of
  the steps that follow its registration, on every outcome it runs for (also on a
  panic); the results of \<open>os.RemoveAll\<close> and of the restoring \<open>os.Rename\<close> are dropped
  as the code drops them. The record that \<open>Install\<close> and \<open>Upgrade\<close> marshal is the
  fetched one with the fields the code assigns.
\<close>

definition installedInfo :: "env \<Rightarrow> string \<Rightarrow> Info \<Rightarrow> Info" where
  "installedInfo e version info =
     info\<lparr>Version := version, Status := ''enabled'', Metadata := [(''installed'', now e)]\<rparr>"

definition installSteps :: "env \<Rightarrow> string \<Rightarrow> string \<Rightarrow> string \<Rightarrow> fs \<Rightarrow> fs \<times> unit result" where
  "installSteps e pluginDir name version fs =
     (case os_MkdirAll (fault e) pluginDir fs of
        (fs1, False) \<Rightarrow> (fs1, Err CreatePluginDirFailed)
      | (fs1, True) \<Rightarrow>
          (case fetch e name version of
             None \<Rightarrow> (fs1, Err FetchFailed)
           | Some info \<Rightarrow>
               (case writePluginFiles e pluginDir info fs1 of
                  (fs2, Err x) \<Rightarrow> (fs2, Err (InstallFailed x))
                | (fs2, Panic) \<Rightarrow> (fs2, Panic)
                | (fs2, Ok u) \<Rightarrow>
                    (case marshalIndent e (installedInfo e version info) of
                       None \<Rightarrow> (fs2, Err MarshalFailed)
                     | Some metadataBytes \<Rightarrow>
                         (case os_WriteFile (fault e) (Join [pluginDir, ''metadata.json''])
                                 metadataBytes fs2 of
                            (fs3, False) \<Rightarrow> (fs3, Err SaveMetadataFailed)
                          | (fs3, True) \<Rightarrow> (fs3, Ok ()))))))"

definition Install :: "env \<Rightarrow> string \<Rightarrow> string \<Rightarrow> string \<Rightarrow> fs \<Rightarrow> fs \<times> unit result" where
  "Install e root name version fs =
     (if cancelled e CtxEntry then (fs, Err CancelledBeforeInstall)
      else if root = [] then (fs, Err NoPluginDirectory)
      else let pluginDir = Join [root, name] in
        if os_Stat (fault e) pluginDir fs = None then (fs, Err AlreadyInstalled)
        else case installSteps e pluginDir name version fs of
               (fs', Ok u) \<Rightarrow> (fs', Ok u)
             | (fs', failure) \<Rightarrow> (fst (os_RemoveAll (fault e) pluginDir fs'), failure))"

definition readMetadata :: "env \<Rightarrow> string \<Rightarrow> fs \<Rightarrow> Info option" where
  "readMetadata e path fs =
     (case os_ReadFile (fault e) path fs of
        Inl x \<Rightarrow> None
      | Inr data \<Rightarrow> unmarshal e data)"

definition setStatus ::
  "env \<Rightarrow> string \<Rightarrow> error \<Rightarrow> string \<Rightarrow> string \<Rightarrow> fs \<Rightarrow> fs \<times> unit result"
where
  "setStatus e status cancelErr root name fs =
     (if cancelled e CtxEntry then (fs, Err cancelErr)
      else let metadataPath = Join [Join [root, name], ''metadata.json''] in
        case os_ReadFile (fault e) metadataPath fs of
          Inl x \<Rightarrow> (fs, Err ReadMetadataFailed)
        | Inr data \<Rightarrow>
            (case unmarshal e data of
               None \<Rightarrow> (fs, Err ParseMetadataFailed)
             | Some info \<Rightarrow>
                 (case marshalIndent e (info\<lparr>Status := status\<rparr>) of
                    None \<Rightarrow> (fs, Err MarshalFailed)
                  | Some metadataBytes \<Rightarrow>
                      (case os_WriteFile (fault e) metadataPath metadataBytes fs of
                         (fs1, False) \<Rightarrow> (fs1, Err SaveMetadataFailed)
                       | (fs1, True) \<Rightarrow> (fs1, Ok ())))))"

definition Enable :: "env \<Rightarrow> string \<Rightarrow> string \<Rightarrow> fs \<Rightarrow> fs \<times> unit result" where
  "Enable e root name fs = setStatus e ''enabled'' CancelledBeforeEnable root name fs"

definition Disable :: "env \<Rightarrow> string \<Rightarrow> string \<Rightarrow> fs \<Rightarrow> fs \<times> unit result" where
  "Disable e root name fs = setStatus e ''disabled'' CancelledBeforeDisable root name fs"

fun listLoop :: "env \<Rightarrow> string \<Rightarrow> (string \<times> bool) list \<Rightarrow> Info list \<Rightarrow> fs \<Rightarrow> Info list result" where
  "listLoop e root [] plugins fs = Ok plugins"
| "listLoop e root ((entryName, isDir) # rest) plugins fs =
     (if \<not> isDir then listLoop e root rest plugins fs
      else case os_ReadFile (fault e) (Join [root, entryName, ''metadata.json'']) fs of
             Inl ENOENT \<Rightarrow> listLoop e root rest plugins fs
           | Inl ENOTDIR \<Rightarrow> Err (ReadMetadataFor entryName)
           | Inl EOTHER \<Rightarrow> Err (ReadMetadataFor entryName)
           | Inr data \<Rightarrow>
               (case unmarshal e data of
                  None \<Rightarrow> Err (ParseMetadataFor entryName)
                | Some info \<Rightarrow> listLoop e root rest (plugins @ [info]) fs))"

definition List :: "env \<Rightarrow> string \<Rightarrow> fs \<Rightarrow> Info list result" where
  "List e root fs =
     (if cancelled e CtxEntry then Err CancelledBeforeList
      else case os_ReadDir (fault e) root fs of
             Inl ENOENT \<Rightarrow> Ok []
           | Inl ENOTDIR \<Rightarrow> Err ReadPluginDirFailed
           | Inl EOTHER \<Rightarrow> Err ReadPluginDirFailed
           | Inr entries \<Rightarrow> listLoop e root entries [] fs)"


definition mapGet :: "(string \<times> string) list \<Rightarrow> string \<Rightarrow> string" where
  "mapGet m k = (case map_of m k of None \<Rightarrow> [] | Some v \<Rightarrow> v)"

definition upgradedInfo :: "env \<Rightarrow> string \<Rightarrow> Info \<Rightarrow> Info \<Rightarrow> Info" where
  "upgradedInfo e version currentInfo newInfo =
     newInfo\<lparr>Version := version, Status := Status currentInfo,
       Metadata := [(''installed'', now e),
                    (''upgraded_from'', Version currentInfo),
                    (''previous_install'', mapGet (Metadata currentInfo) ''installed'')]\<rparr>"

definition upgradeSteps ::
  "env \<Rightarrow> string \<Rightarrow> string \<Rightarrow> string \<Rightarrow> Info \<Rightarrow> fs \<Rightarrow> fs \<times> unit result"
where
  "upgradeSteps e pluginDir name version currentInfo fs =
     (let tmpDir = pluginDir @ ''.upgrade'' in
      case os_MkdirAll (fault e) tmpDir fs of
        (fs1, False) \<Rightarrow> (fs1, Err CreateTmpDirFailed)
      | (fs1, True) \<Rightarrow>
          (case fetch e name version of
             None \<Rightarrow> (fs1, Err FetchUpgradeFailed)
           | Some newInfo \<Rightarrow>
               (case writePluginFiles e tmpDir newInfo fs1 of
                  (fs2, Err x) \<Rightarrow> (fs2, Err (WriteUpgradedFailed x))
                | (fs2, Panic) \<Rightarrow> (fs2, Panic)
                | (fs2, Ok u) \<Rightarrow>
                    (case marshalIndent e (upgradedInfo e version currentInfo newInfo) of
                       None \<Rightarrow> (fs2, Err MarshalFailed)
                     | Some metadataBytes \<Rightarrow>
                         (case os_WriteFile (fault e) (Join [tmpDir, ''metadata.json''])
                                 metadataBytes fs2 of
                            (fs3, False) \<Rightarrow> (fs3, Err WriteMetadataFailed)
                          | (fs3, True) \<Rightarrow>
                              (let backupDir = pluginDir @ ''.backup'' in
                               case os_Rename (fault e) pluginDir backupDir fs3 of
                                 (fs4, False) \<Rightarrow> (fs4, Err BackupFailed)
                               | (fs4, True) \<Rightarrow>
                                   (case os_Rename (fault e) tmpDir pluginDir fs4 of
                                      (fs5, False) \<Rightarrow>
                                        (fst (os_Rename (fault e) backupDir pluginDir fs5),
                                         Err InstallUpgradeFailed)
                                    | (fs5, True) \<Rightarrow>
                                        (fst (os_RemoveAll (fault e) backupDir fs5), Ok ()))))))))"

definition Upgrade :: "env \<Rightarrow> string \<Rightarrow> string \<Rightarrow> string \<Rightarrow> fs \<Rightarrow> fs \<times> unit result" where
  "Upgrade e root name version fs =
     (if cancelled e CtxEntry then (fs, Err CancelledBeforeUpgrade)
      else let pluginDir = Join [root, name] in
        if os_Stat (fault e) pluginDir fs = Some ENOENT then (fs, Err NotInstalled)
        else case readMetadata e (Join [pluginDir, ''metadata.json'']) fs of
               None \<Rightarrow> (fs, Err ReadCurrentMetadataFailed)
             | Some currentInfo \<Rightarrow>
                 if Version currentInfo = version then (fs, Err AlreadyAtVersion)
                 else case upgradeSteps e pluginDir name version currentInfo fs of
                        (fs', outcome) \<Rightarrow>
                          (fst (os_RemoveAll (fault e) (pluginDir @ ''.upgrade'') fs'), outcome))"

section \<open>The native executor\<close>

text \<open>
  \<open>NativeExecutor.Execute\<close> runs the file whose path it computes from its plugin
  directory and the name of the plugin. Only that computation is modelled: \<open>pluginPath\<close>.
\<close>

definition pluginPath :: "string \<Rightarrow> string \<Rightarrow> string" where
  "pluginPath pluginDir pluginName = Join [pluginDir, pluginName, pluginName]"

section \<open>A concrete environment\<close>

text \<open>
  An environment on which the model runs: no cancellation, no fault, a store that knows
  the plugin \<open>tool\<close>, content that is not an archive, and a small codec in place of
  JSON (\<open>status|version|name\<close>). The others vary it: a store that fails, a store whose
  record names lead out of the directory they are joined to, archives as content, and a
  fault at one call of the file system.
\<close>

definition demoInfo :: Info where
  "demoInfo = \<lparr>Name = ''tool'', FileName = ''tool.bin'', Version = ''1.2.3'',
     Description = ''a tool'', Store = ''github'', Runtime = ''exec'',
     Metadata = [(''owner'', ''acme'')], Status = [], Content = CBytes ''#!bin''\<rparr>"

definition demoEnv :: env where
  "demoEnv = \<lparr>cancelled = (\<lambda>p. False), fault = (\<lambda>c. False),
     fetch = (\<lambda>n v. if n = ''tool'' then Some demoInfo else None),
     detectContentType = (\<lambda>b. ''application/octet-stream''),
     marshalIndent = (\<lambda>i. Some (Status i @ ''|'' @ Version i @ ''|'' @ Name i)),
     unmarshal = (\<lambda>d. if CHR ''|'' \<in> set d
                        then Some (demoInfo\<lparr>Status := takeWhile (\<lambda>c. c \<noteq> CHR ''|'') d,
                               Version := takeWhile (\<lambda>c. c \<noteq> CHR ''|'')
                                 (drop 1 (dropWhile (\<lambda>c. c \<noteq> CHR ''|'') d))\<rparr>)
                        else None),
     decompress = (\<lambda>p r. None), tarEntries = (\<lambda>r. ([], False)), zipFiles = (\<lambda>r. None),
     now = ''2024-01-01T00:00:00Z''\<rparr>"

definition demoInstalled :: fs where
  "demoInstalled =
     [(''/p/tool/metadata.json'', FileNode ''enabled|1.0|tool''),
      (''/p/tool/tool/tool.bin'', FileNode ''#!old''),
      (''/p/tool/tool'', DirNode), (''/p/tool'', DirNode), (''/p'', DirNode), (''/'', DirNode)]"



definition evilTar :: "tar_entry list" where
  "evilTar = [\<lparr>tname = ''../tool-evil/x'', ttype = TypeReg, tdata = ''evil'', tdata_fails = False\<rparr>]"

definition evilZip :: "zip_entry list" where
  "evilZip = [\<lparr>zname = ''../tool-evil/x'', zisdir = False, zopen_fails = False,
                zdata = ''evil'', zdata_fails = False\<rparr>]"

definition passwdTar :: "tar_entry list" where
  "passwdTar = [\<lparr>tname = ''../../etc/passwd'', ttype = TypeReg, tdata = ''root'', tdata_fails = False\<rparr>]"

definition destOnly :: fs where
  "destOnly = [(''/p/tool/tool'', DirNode), (''/p/tool'', DirNode), (''/p'', DirNode), (''/'', DirNode)]"

definition archiveEnv :: env where
  "archiveEnv = demoEnv\<lparr>
     fetch := (\<lambda>n v. Some (demoInfo\<lparr>Name := [], Content := CBytes ''gz''\<rparr>)),
     detectContentType := (\<lambda>b. ''application/x-gzip''),
     decompress := (\<lambda>p r. Some r),
     tarEntries := (\<lambda>r. (evilTar, False))\<rparr>"

definition noStoreEnv :: env where
  "noStoreEnv = demoEnv\<lparr>fetch := (\<lambda>n v. None)\<rparr>"

definition nativeEnv :: env where
  "nativeEnv = demoEnv\<lparr>fetch := (\<lambda>n v. Some (demoInfo\<lparr>FileName := ''tool''\<rparr>))\<rparr>"

definition failedSwapEnv :: env where
  "failedSwapEnv = demoEnv\<lparr>fault := (\<lambda>c. c = SysRename ''/p/tool.upgrade'' ''/p/tool'')\<rparr>"

definition evilStoreEnv :: env where
  "evilStoreEnv = failedSwapEnv\<lparr>
     fetch := (\<lambda>n v. Some (demoInfo\<lparr>Name := ''../tool'', FileName := ''metadata.json'',
                                 Content := CBytes ''disabled|6.6|evil''\<rparr>))\<rparr>"

definition rootOnly :: fs where
  "rootOnly = [(''/p'', DirNode), (''/'', DirNode)]"

definition lateFaultEnv :: env where
  "lateFaultEnv = demoEnv\<lparr>fault := (\<lambda>c. c = SysWriteFile ''/p/tool/metadata.json'')\<rparr>"

definition tarballEnv :: env where
  "tarballEnv = demoEnv\<lparr>
     fetch := (\<lambda>n v. Some (demoInfo\<lparr>Content := CBytes ''gz''\<rparr>)),
     detectContentType := (\<lambda>b. ''application/x-gzip''),
     decompress := (\<lambda>p r. Some r),
     tarEntries := (\<lambda>r. ([\<lparr>tname = ''bin/run'', ttype = TypeReg, tdata = ''run'', tdata_fails = False\<rparr>],
                          False))\<rparr>"

definition sharedInfo :: "string \<Rightarrow> Info" where
  "sharedInfo bytes = demoInfo\<lparr>Name := ''../shared'', FileName := ''f'', Content := CBytes bytes\<rparr>"

definition sharedFailEnv :: env where
  "sharedFailEnv = lateFaultEnv\<lparr>fetch := (\<lambda>n v. Some (sharedInfo ''abcdef''))\<rparr>"

definition sharedEnv :: env where
  "sharedEnv = demoEnv\<lparr>fetch := (\<lambda>n v. Some (sharedInfo ''Z''))\<rparr>"

section \<open>Results on the lifecycle manager\<close>

text \<open>
  What \<open>Clean\<close> returns is never the empty string, so that the plugin directory
  \<open>Join [root, name]\<close> of a manager with a plugin root is a path that \<open>os.RemoveAll\<close>
  acts on.
\<close>

lemma cleanStep_nonempty:
  "\<forall>c \<in> set out. c \<noteq> [] \<Longrightarrow> \<forall>c \<in> set (cleanStep rooted out elem). c \<noteq> []"
  by (auto simp: cleanStep_def dest: in_set_butlastD)

lemma foldl_cleanStep_nonempty:
  "\<forall>c \<in> set out. c \<noteq> [] \<Longrightarrow> \<forall>c \<in> set (foldl (cleanStep rooted) out elems). c \<noteq> []"
proof (induction elems arbitrary: out)
  case Nil
  then show ?case by simp
next
  case (Cons a elems)
  from cleanStep_nonempty [OF Cons.prems] have "\<forall>c\<in>set (cleanStep rooted out a). c \<noteq> []" .
  from Cons.IH [OF this] show ?case by simp
qed

lemma joinSlash_nonempty: "out \<noteq> [] \<Longrightarrow> hd out \<noteq> [] \<Longrightarrow> joinSlash out \<noteq> []"
  by (cases out rule: joinSlash.cases) auto

lemma Clean_nonempty: "Clean path \<noteq> []"
proof -
  have "joinSlash out \<noteq> []" if "out = foldl (cleanStep r) [] (splitSlash path)" "out \<noteq> []" for out r
  proof -
    have "\<forall>c \<in> set out. c \<noteq> []"
      unfolding that(1) by (rule foldl_cleanStep_nonempty) simp
    with that(2) have "hd out \<noteq> []" by (cases out) auto
    with that(2) show ?thesis by (rule joinSlash_nonempty)
  qed
  then show ?thesis by (simp add: Clean_def Let_def)
qed

lemma Join_nonempty: "root \<noteq> [] \<Longrightarrow> Join (root # rest) \<noteq> []"
  by (simp add: Join_def Clean_nonempty)

text \<open>
  Claim C10. When \<open>Upgrade\<close> has passed its precondition checks (context live, plugin
  directory found, current record readable, version different), the staging directory
  \<open><pluginRoot>/<name>.upgrade\<close> and everything below it do not exist when \<open>Upgrade\<close> is
  done, whatever the outcome of the later steps (success, error or panic). The deferred
  \<open>os.RemoveAll\<close> does the work; its own error is discarded by the code, so the statement
  is for a removal that is not itself faulted.
\<close>

theorem Upgrade_removes_staging:
  assumes checks: "\<not> cancelled e CtxEntry"
      "os_Stat (fault e) (Join [root, name]) fs \<noteq> Some ENOENT"
      "readMetadata e (Join [Join [root, name], ''metadata.json'']) fs = Some currentInfo"
      "Version currentInfo \<noteq> version"
    and cleanup: "\<not> fault e (SysRemoveAll (Join [root, name] @ ''.upgrade''))"
  shows "(\<forall>q. inside (Join [root, name] @ ''.upgrade'') q \<longrightarrow>
            lookup (fst (Upgrade e root name version fs)) q = None)
     \<and> lookup (fst (Upgrade e root name version fs)) (Join [root, name] @ ''.upgrade'') = None"
proof -
  let ?dir = "Join [root, name]"
  let ?tmp = "?dir @ ''.upgrade''"
  obtain fs1 r where steps: "upgradeSteps e ?dir name version currentInfo fs = (fs1, r)"
    by (cases "upgradeSteps e ?dir name version currentInfo fs")
  with checks have "fst (Upgrade e root name version fs) = fst (os_RemoveAll (fault e) ?tmp fs1)"
    by (simp add: Upgrade_def Let_def)
  with cleanup have fs': "fst (Upgrade e root name version fs) = removeTree ?tmp fs1"
    by (simp add: os_RemoveAll_def)
  have all: "\<forall>q. inside ?tmp q \<longrightarrow> lookup (fst (Upgrade e root name version fs)) q = None"
    unfolding fs' by (simp add: lookup_removeTree)
  moreover have "inside ?tmp ?tmp" by (simp add: inside_def)
  ultimately show ?thesis by blast
qed

theorem Upgrade_removes_staging_witness:
  "\<not> cancelled failedSwapEnv CtxEntry
   \<and> os_Stat (fault failedSwapEnv) (Join [''/p'', ''tool'']) demoInstalled \<noteq> Some ENOENT
   \<and> readMetadata failedSwapEnv (Join [Join [''/p'', ''tool''], ''metadata.json'']) demoInstalled
        = Some (demoInfo\<lparr>Status := ''enabled'', Version := ''1.0''\<rparr>)
   \<and> Version (demoInfo\<lparr>Status := ''enabled'', Version := ''1.0''\<rparr>) \<noteq> ''2.0''
   \<and> \<not> fault failedSwapEnv (SysRemoveAll (Join [''/p'', ''tool''] @ ''.upgrade''))
   \<and> snd (Upgrade failedSwapEnv ''/p'' ''tool'' ''2.0'' demoInstalled) = Err InstallUpgradeFailed
   \<and> lookup (fst (Upgrade failedSwapEnv ''/p'' ''tool'' ''2.0'' demoInstalled))
         (Join [''/p'', ''tool''] @ ''.upgrade'') = None"
proof -
  have h1: "\<not> cancelled failedSwapEnv CtxEntry" by code_simp
  have h2: "os_Stat (fault failedSwapEnv) (Join [''/p'', ''tool'']) demoInstalled \<noteq> Some ENOENT"
    by code_simp
  have h3: "readMetadata failedSwapEnv (Join [Join [''/p'', ''tool''], ''metadata.json'']) demoInstalled
        = Some (demoInfo\<lparr>Status := ''enabled'', Version := ''1.0''\<rparr>)"
    by code_simp
  have h4: "Version (demoInfo\<lparr>Status := ''enabled'', Version := ''1.0''\<rparr>) \<noteq> ''2.0''" by simp
  have h5: "\<not> fault failedSwapEnv (SysRemoveAll (Join [''/p'', ''tool''] @ ''.upgrade''))"
    by code_simp
  have h6: "snd (Upgrade failedSwapEnv ''/p'' ''tool'' ''2.0'' demoInstalled) = Err InstallUpgradeFailed"
    by code_simp
  from Upgrade_removes_staging [OF h1 h2 h3 h4 h5] h1 h2 h3 h4 h5 h6 show ?thesis by blast
qed

subsection \<open>What a successful installation leaves\<close>

lemma parentOf_prefix: "prefix (parentOf p) p"
proof -
  define a where "a = dropWhile (\<lambda>c. c = CHR ''/'') (rev p)"
  define b where "b = dropWhile (\<lambda>c. c \<noteq> CHR ''/'') a"
  define c where "c = dropWhile (\<lambda>c. c = CHR ''/'') b"
  have par: "parentOf p = (if b = [] then [] else if c = [] then ''/'' else rev c)"
    unfolding parentOf_def Let_def a_def b_def c_def by (rule refl)
  have sb: "suffix b (rev p)"
    unfolding b_def a_def by (meson suffix_dropWhile suffix_order.trans)
  have sc: "suffix c (rev p)"
    unfolding c_def using sb by (meson suffix_dropWhile suffix_order.trans)
  show ?thesis
  proof (cases "b = []")
    case True
    with par show ?thesis by simp
  next
    case False
    then have bne: "b \<noteq> []" .
    have hb: "hd b = CHR ''/''"
    proof -
      have "\<not> (hd b \<noteq> CHR ''/'')"
        using bne unfolding b_def by (rule hd_dropWhile)
      then show ?thesis by simp
    qed
    show ?thesis
    proof (cases "c = []")
      case True
      then have "\<forall>x \<in> set b. x = CHR ''/''"
        unfolding c_def by (simp add: dropWhile_eq_Nil_conv)
      with bne have "last b = CHR ''/''" by (meson last_in_set)
      moreover from sb obtain z where "rev p = z @ b" by (auto simp: suffix_def)
      then have "p = rev b @ rev z" by (metis rev_append rev_rev_ident)
      ultimately have "prefix ''/'' p"
        using bne by (cases "rev b") (auto simp: hd_rev)
      with True False par show ?thesis by simp
    next
      case F2: False
      from sc have "prefix (rev c) p"
        by (metis rev_rev_ident suffix_to_prefix)
      with False F2 par show ?thesis by simp
    qed
  qed
qed

lemma mkdirAll_lookup:
  "mkdirAll p fs = (fs', ok) \<Longrightarrow>
     lookup fs' q = lookup fs q \<or> (lookup fs q = None \<and> lookup fs' q = Some DirNode \<and> prefix q p)"
proof (induction p fs arbitrary: fs' ok rule: mkdirAll.induct)
  case (1 p fs)
  show ?case
  proof (cases "lookup fs p")
    case (Some n)
    with "1.prems" show ?thesis
      by (subst (asm) mkdirAll.simps) (auto split: node.splits)
  next
    case None
    show ?thesis
    proof (cases "parentOf p = []")
      case True
      with None "1.prems" have "fs' = put p DirNode fs"
        by (subst (asm) mkdirAll.simps) auto
      with None show ?thesis by (auto simp: lookup_put)
    next
      case False
      obtain fs1 ok1 where m: "mkdirAll (parentOf p) fs = (fs1, ok1)"
        by (cases "mkdirAll (parentOf p) fs")
      from "1.IH" [OF None False m]
      have ih: "lookup fs1 q = lookup fs q \<or>
          (lookup fs q = None \<and> lookup fs1 q = Some DirNode \<and> prefix q (parentOf p))" .
      have pp: "prefix q (parentOf p) \<Longrightarrow> prefix q p"
        using parentOf_prefix [of p] by (meson prefix_order.trans)
      show ?thesis
      proof (cases ok1)
        case True
        with None False m "1.prems" have "fs' = put p DirNode fs1"
          by (subst (asm) mkdirAll.simps) auto
        with ih pp None show ?thesis by (auto simp: lookup_put)
      next
        case F: False
        with None False m "1.prems" have "fs' = fs1"
          by (subst (asm) mkdirAll.simps) auto
        with ih pp show ?thesis by auto
      qed
    qed
  qed
qed

lemma os_MkdirAll_lookup:
  "os_MkdirAll flt p fs = (fs', ok) \<Longrightarrow>
     lookup fs' q = lookup fs q \<or> (lookup fs q = None \<and> lookup fs' q = Some DirNode \<and> prefix q p)"
  by (auto simp: os_MkdirAll_def split: if_splits dest: mkdirAll_lookup)

lemma os_MkdirAll_fileBytes: "os_MkdirAll flt p fs = (fs', ok) \<Longrightarrow> fileBytes fs' q = fileBytes fs q"
  using os_MkdirAll_lookup [of flt p fs fs' ok q] by (auto simp: fileBytes_def)

lemma os_WriteFile_ok: "os_WriteFile flt p d fs = (fs', True) \<Longrightarrow> fs' = put p (FileNode d) fs"
  by (auto simp: os_WriteFile_def split: if_splits)

lemma os_OpenFile_ok:
  "os_OpenFile flt p fs = (fs', True) \<Longrightarrow>
     lookup fs' p = Some (FileNode (fileBytes fs p)) \<and> (\<forall>q. q \<noteq> p \<longrightarrow> lookup fs' q = lookup fs q)"
  by (auto simp: os_OpenFile_def creatable_def fileBytes_def lookup_put
        split: if_splits option.splits node.splits)

lemma io_Copy_ok:
  "io_Copy flt p bytes fails fs = (fs', True) \<Longrightarrow> lookup fs p = Some (FileNode old) \<Longrightarrow>
     lookup fs' p = Some (FileNode (bytes @ drop (length bytes) old))
       \<and> (\<forall>q. q \<noteq> p \<longrightarrow> lookup fs' q = lookup fs q)"
  by (auto simp: io_Copy_def lookup_put split: if_splits)

lemma extractTar_not_reader: "snd (extractTar e r d fs) \<noteq> Ok (Some x)"
  by (auto simp: extractTar_def split: prod.splits result.splits)

lemma extractZip_not_reader: "snd (extractZip e r d fs) \<noteq> Ok (Some x)"
  by (auto simp: extractZip_def split: prod.splits result.splits option.splits)

lemma processFile_terminal:
  "procs \<noteq> [] \<Longrightarrow> last procs = ExtractTar \<or> last procs = ExtractZip \<Longrightarrow>
     snd (processFile e k r d procs fs) \<noteq> Ok (Some x)"
proof (induction procs arbitrary: k r fs)
  case Nil
  then show ?case by simp
next
  case (Cons p procs)
  show ?case
  proof (cases "procs = []")
    case True
    with Cons.prems have "p = ExtractTar \<or> p = ExtractZip" by simp
    then show ?thesis
      using True extractTar_not_reader [of e r d fs x] extractZip_not_reader [of e r d fs x]
      by (auto simp: runProcessor_def split: prod.splits result.splits option.splits)
  next
    case False
    with Cons.prems have "last procs = ExtractTar \<or> last procs = ExtractZip" by simp
    from Cons.IH [OF False this] show ?thesis
      by (auto split: prod.splits result.splits option.splits)
  qed
qed

lemma fileProcessorMap_terminal:
  "fileProcessorMap ct = Some procs \<Longrightarrow> procs \<noteq> [] \<and> (last procs = ExtractTar \<or> last procs = ExtractZip)"
  by (auto simp: fileProcessorMap_def split: if_splits)

lemma writePluginFiles_ok:
  assumes "writePluginFiles e dir info fs = (fs', Ok ())"
  shows "\<exists>r. contentReader (Content info) = Some r
     \<and> fileProcessorMap (detectContentType e (take 512 (rbytes r))) = None
     \<and> lookup fs' (Join [Join [dir, Name info], FileName info])
         = Some (FileNode (rbytes r @ drop (length (rbytes r))
                   (fileBytes fs (Join [Join [dir, Name info], FileName info]))))"
proof -
  let ?pd = "Join [dir, Name info]"
  let ?bin = "Join [?pd, FileName info]"
  obtain fs1 ok1 where mk: "os_MkdirAll (fault e) ?pd fs = (fs1, ok1)"
    by (cases "os_MkdirAll (fault e) ?pd fs")
  from assms mk have ok1: "ok1" by (cases ok1) (auto simp: writePluginFiles_def Let_def)
  from assms mk ok1 obtain r where r: "contentReader (Content info) = Some r"
    by (auto simp: writePluginFiles_def Let_def split: option.splits)
  from assms mk ok1 r have sn: "sniffError (Content info) = None"
    by (auto simp: writePluginFiles_def Let_def split: option.splits)
  obtain fs2 ok2 where op: "os_OpenFile (fault e) ?bin fs1 = (fs2, ok2)"
    by (cases "os_OpenFile (fault e) ?bin fs1")
  from assms mk ok1 r sn op have ok2: "ok2"
    by (cases ok2) (auto simp: writePluginFiles_def Let_def)
  let ?ct = "detectContentType e (take 512 (rbytes r))"
  have none: "fileProcessorMap ?ct = None"
  proof (cases "fileProcessorMap ?ct")
    case None
    then show ?thesis .
  next
    case (Some procs)
    from fileProcessorMap_terminal [OF Some]
    have "snd (processFile e 0 r ?pd procs fs2) \<noteq> Ok (Some x)" for x
      by (intro processFile_terminal) auto
    with assms mk ok1 r sn op ok2 Some show ?thesis
      by (auto simp: writePluginFiles_def Let_def split: prod.splits result.splits option.splits)
  qed
  from assms mk ok1 r sn op ok2 none
  have cp: "io_Copy (fault e) ?bin (rbytes r) (rfails r) fs2 = (fs', True)"
    by (auto simp: writePluginFiles_def Let_def split: prod.splits bool.splits)
  from os_OpenFile_ok [of "fault e" ?bin fs1 fs2] op ok2
  have l2: "lookup fs2 ?bin = Some (FileNode (fileBytes fs1 ?bin))" by simp
  from io_Copy_ok [OF cp l2]
  have "lookup fs' ?bin = Some (FileNode (rbytes r @ drop (length (rbytes r)) (fileBytes fs1 ?bin)))"
    by simp
  moreover from os_MkdirAll_fileBytes [OF mk] have "fileBytes fs1 ?bin = fileBytes fs ?bin" .
  ultimately show ?thesis using r none by auto
qed

lemma Install_ok_steps:
  assumes "Install e root name version fs = (fs', Ok ())"
  shows "\<exists>fs1 info fs2 mbytes.
      os_MkdirAll (fault e) (Join [root, name]) fs = (fs1, True)
    \<and> fetch e name version = Some info
    \<and> writePluginFiles e (Join [root, name]) info fs1 = (fs2, Ok ())
    \<and> marshalIndent e (installedInfo e version info) = Some mbytes
    \<and> fs' = put (Join [Join [root, name], ''metadata.json'']) (FileNode mbytes) fs2"
proof -
  let ?dir = "Join [root, name]"
  obtain fsS rS where st: "installSteps e ?dir name version fs = (fsS, rS)"
    by (cases "installSteps e ?dir name version fs")
  from assms st have rS: "rS = Ok ()" and fsS: "fsS = fs'"
    by (auto simp: Install_def Let_def split: if_splits result.splits)
  from st rS fsS show ?thesis
    unfolding installSteps_def
    by (auto split: prod.splits bool.splits option.splits result.splits dest!: os_WriteFile_ok)
qed

text \<open>
  Claim C9. After a successful \<open>Install name version\<close> the record file
  \<open><pluginRoot>/<name>/metadata.json\<close> holds the marshalled fetched record with its
  version replaced by the caller's version string as it was given (whatever version the
  store put into the record), its status set to \<open>enabled\<close> and its metadata replaced by
  the single entry \<open>installed\<close> with the time stamp.
\<close>

theorem Install_record:
  assumes "Install e root name version fs = (fs', Ok ())"
  shows "\<exists>info mbytes. fetch e name version = Some info
     \<and> marshalIndent e
          (info\<lparr>Version := version, Status := ''enabled'', Metadata := [(''installed'', now e)]\<rparr>)
         = Some mbytes
     \<and> lookup fs' (Join [Join [root, name], ''metadata.json'']) = Some (FileNode mbytes)"
  using Install_ok_steps [OF assms] by (auto simp: installedInfo_def lookup_put)

theorem Install_record_witness:
  "Install demoEnv ''/p'' ''tool'' ''latest'' []
     = (fst (Install demoEnv ''/p'' ''tool'' ''latest'' []), Ok ())
   \<and> Version demoInfo = ''1.2.3'' \<and> Metadata demoInfo = [(''owner'', ''acme'')]
   \<and> lookup (fst (Install demoEnv ''/p'' ''tool'' ''latest'' [])) ''/p/tool/metadata.json''
       = Some (FileNode ''enabled|latest|tool'')"
proof -
  have "snd (Install demoEnv ''/p'' ''tool'' ''latest'' []) = Ok ()" by code_simp
  then have h: "Install demoEnv ''/p'' ''tool'' ''latest'' []
     = (fst (Install demoEnv ''/p'' ''tool'' ''latest'' []), Ok ())"
    by (metis prod.collapse)
  have f: "fetch demoEnv ''tool'' ''latest'' = Some demoInfo" by code_simp
  have m: "marshalIndent demoEnv
      (demoInfo\<lparr>Version := ''latest'', Status := ''enabled'', Metadata := [(''installed'', now demoEnv)]\<rparr>)
      = Some ''enabled|latest|tool''" by code_simp
  have p: "Join [Join [''/p'', ''tool''], ''metadata.json''] = ''/p/tool/metadata.json''" by code_simp
  have v: "Version demoInfo = ''1.2.3''" "Metadata demoInfo = [(''owner'', ''acme'')]"
    by (simp_all add: demoInfo_def)
  from Install_record [OF h] f m p
  have "lookup (fst (Install demoEnv ''/p'' ''tool'' ''latest'' [])) ''/p/tool/metadata.json''
       = Some (FileNode ''enabled|latest|tool'')" by auto
  with h v show ?thesis by blast
qed

text \<open>
  Where a successful installation leaves the content: at the file name of the fetched
  record below the plugin-specific directory, which \<open>writePluginFiles\<close> makes by joining
  the directory it is given with the record's name. The bytes are written from offset 0
  over what the file held (the file is opened without truncation). The record is
  written last, so that it replaces the content when the two paths are the same.
\<close>

lemma Install_content_path:
  assumes "Install e root name version fs = (fs', Ok ())"
  shows "\<exists>info r. fetch e name version = Some info
     \<and> contentReader (Content info) = Some r
     \<and> (Join [Join [Join [root, name], Name info], FileName info]
           \<noteq> Join [Join [root, name], ''metadata.json'']
         \<longrightarrow> lookup fs' (Join [Join [Join [root, name], Name info], FileName info])
              = Some (FileNode (rbytes r @ drop (length (rbytes r))
                   (fileBytes fs (Join [Join [Join [root, name], Name info], FileName info])))))"
proof -
  from Install_ok_steps [OF assms] obtain fs1 info fs2 mbytes where
    mk: "os_MkdirAll (fault e) (Join [root, name]) fs = (fs1, True)"
    and f: "fetch e name version = Some info"
    and w: "writePluginFiles e (Join [root, name]) info fs1 = (fs2, Ok ())"
    and m: "marshalIndent e (installedInfo e version info) = Some mbytes"
    and fs': "fs' = put (Join [Join [root, name], ''metadata.json'']) (FileNode mbytes) fs2"
    by blast
  from writePluginFiles_ok [OF w] obtain r where
    r: "contentReader (Content info) = Some r"
    and l: "lookup fs2 (Join [Join [Join [root, name], Name info], FileName info])
         = Some (FileNode (rbytes r @ drop (length (rbytes r))
                   (fileBytes fs1 (Join [Join [Join [root, name], Name info], FileName info]))))"
    by blast
  from os_MkdirAll_fileBytes [OF mk]
  have "fileBytes fs1 (Join [Join [Join [root, name], Name info], FileName info])
      = fileBytes fs (Join [Join [Join [root, name], Name info], FileName info])" .
  with l fs' f r show ?thesis by (auto simp: lookup_put)
qed

text \<open>
  Claim C3. The claim puts the content of a successful installation at
  \<open><pluginRoot>/<name>/<fileName>\<close>, beside the record. The executors of the repository
  read it there, one level below the plugin directory: \<open>NativeExecutor.Execute\<close> runs
  \<open><pluginDir>/<pluginName>/<pluginName>\<close>. \<open>Install\<close>, however, hands \<open>writePluginFiles\<close>
  the plugin directory \<open><pluginRoot>/<name>\<close>, and \<open>writePluginFiles\<close> joins it with the
  record's \<open>Name\<close> once more before it joins the file name, so that the content is at
  \<open><pluginRoot>/<name>/<Name>/<FileName>\<close>. The theorem evaluates the code. Installing the
  plugin \<open>tool\<close>, whose record has the name \<open>tool\<close>, the file name \<open>tool.bin\<close> and content
  that is not an archive, succeeds and puts the record at \<open>/p/tool/metadata.json\<close> as
  claimed, but leaves nothing at \<open>/p/tool/tool.bin\<close>: the content is at
  \<open>/p/tool/tool/tool.bin\<close>. With a record whose file name is the plugin name, as the
  native executor needs it, the content is at \<open>/p/tool/tool/tool\<close>, and the path that the
  executor runs, \<open>/p/tool/tool\<close>, is a directory.
\<close>

theorem Install_nests_content:
  "snd (Install demoEnv ''/p'' ''tool'' ''latest'' []) = Ok ()
   \<and> fetch demoEnv ''tool'' ''latest'' = Some demoInfo
   \<and> Name demoInfo = ''tool'' \<and> FileName demoInfo = ''tool.bin''
   \<and> Content demoInfo = CBytes ''#!bin''
   \<and> fileProcessorMap (detectContentType demoEnv (take 512 ''#!bin'')) = None
   \<and> Join [Join [''/p'', ''tool''], FileName demoInfo] = ''/p/tool/tool.bin''
   \<and> lookup (fst (Install demoEnv ''/p'' ''tool'' ''latest'' [])) ''/p/tool/tool.bin'' = None
   \<and> lookup (fst (Install demoEnv ''/p'' ''tool'' ''latest'' [])) ''/p/tool/tool/tool.bin''
       = Some (FileNode ''#!bin'')
   \<and> lookup (fst (Install demoEnv ''/p'' ''tool'' ''latest'' [])) ''/p/tool/metadata.json''
       = Some (FileNode ''enabled|latest|tool'')
   \<and> fetch nativeEnv ''tool'' ''latest'' = Some (demoInfo\<lparr>FileName := ''tool''\<rparr>)
   \<and> snd (Install nativeEnv ''/p'' ''tool'' ''latest'' []) = Ok ()
   \<and> pluginPath ''/p'' ''tool'' = ''/p/tool/tool''
   \<and> lookup (fst (Install nativeEnv ''/p'' ''tool'' ''latest'' [])) (pluginPath ''/p'' ''tool'')
       = Some DirNode
   \<and> lookup (fst (Install nativeEnv ''/p'' ''tool'' ''latest'' [])) ''/p/tool/tool/tool''
       = Some (FileNode ''#!bin'')"
  by code_simp

subsection \<open>Enable, Disable and the loop of List\<close>

lemma setStatus_ok:
  assumes "\<not> cancelled e CtxEntry"
    and "os_ReadFile (fault e) (Join [Join [root, name], ''metadata.json'']) fs = Inr data"
    and "unmarshal e data = Some info"
    and "marshalIndent e (info\<lparr>Status := status\<rparr>) = Some bytes"
    and "\<not> fault e (SysWriteFile (Join [Join [root, name], ''metadata.json'']))"
  shows "setStatus e status cancelErr root name fs
      = (put (Join [Join [root, name], ''metadata.json'']) (FileNode bytes) fs, Ok ())"
proof -
  from assms(2) have "\<exists>d. lookup fs (Join [Join [root, name], ''metadata.json'']) = Some (FileNode d)"
    by (auto simp: os_ReadFile_def split: if_splits option.splits node.splits)
  then have "creatable fs (Join [Join [root, name], ''metadata.json''])"
    by (auto simp: creatable_def)
  with assms show ?thesis
    by (simp add: setStatus_def Let_def os_WriteFile_def)
qed

lemma setStatus_unreadable:
  assumes "readMetadata e (Join [Join [root, name], ''metadata.json'']) fs = None"
  shows "\<exists>x. setStatus e status cancelErr root name fs = (fs, Err x)"
  using assms
  by (auto simp: setStatus_def readMetadata_def Let_def split: sum.splits)







text \<open>
  Claim C8. For a plugin whose record is readable (the file is read and parsed to
  \<open>info\<close>), \<open>Enable\<close> writes the record \<open>info\<close> with its status set to \<open>enabled\<close> and
  \<open>Disable\<close> with its status set to \<open>disabled\<close>: every other field of the record is the
  one read, and no other path of the file system changes. This is for a call that
  runs to its end: the context is live, and marshalling and the write do not fail.
  When the record is missing or unreadable, both fail and leave the file system as it
  was.
\<close>

theorem Enable_Disable_record:
  "(\<not> cancelled e CtxEntry
      \<and> os_ReadFile (fault e) (Join [Join [root, name], ''metadata.json'']) fs = Inr data
      \<and> unmarshal e data = Some info
      \<and> \<not> fault e (SysWriteFile (Join [Join [root, name], ''metadata.json'']))
    \<longrightarrow>
      (marshalIndent e (info\<lparr>Status := ''enabled''\<rparr>) = Some bytes \<longrightarrow>
         Enable e root name fs
           = (put (Join [Join [root, name], ''metadata.json'']) (FileNode bytes) fs, Ok ()))
    \<and> (marshalIndent e (info\<lparr>Status := ''disabled''\<rparr>) = Some bytes \<longrightarrow>
         Disable e root name fs
           = (put (Join [Join [root, name], ''metadata.json'']) (FileNode bytes) fs, Ok ())))
   \<and> (readMetadata e (Join [Join [root, name], ''metadata.json'']) fs = None \<longrightarrow>
        (\<exists>x. Enable e root name fs = (fs, Err x)) \<and> (\<exists>x. Disable e root name fs = (fs, Err x)))"
  unfolding Enable_def Disable_def
  using setStatus_ok [of e root name fs data info _ bytes]
    setStatus_unreadable [of e root name fs]
  by blast

theorem Enable_Disable_record_witness:
  "\<not> cancelled demoEnv CtxEntry
   \<and> os_ReadFile (fault demoEnv) (Join [Join [''/p'', ''tool''], ''metadata.json'']) demoInstalled
       = Inr ''enabled|1.0|tool''
   \<and> unmarshal demoEnv ''enabled|1.0|tool'' = Some (demoInfo\<lparr>Status := ''enabled'', Version := ''1.0''\<rparr>)
   \<and> \<not> fault demoEnv (SysWriteFile (Join [Join [''/p'', ''tool''], ''metadata.json'']))
   \<and> marshalIndent demoEnv (demoInfo\<lparr>Status := ''enabled'', Version := ''1.0'', Status := ''disabled''\<rparr>)
       = Some ''disabled|1.0|tool''
   \<and> Disable demoEnv ''/p'' ''tool'' demoInstalled
       = (put (Join [Join [''/p'', ''tool''], ''metadata.json'']) (FileNode ''disabled|1.0|tool'')
            demoInstalled, Ok ())
   \<and> readMetadata demoEnv (Join [Join [''/p'', ''other''], ''metadata.json'']) demoInstalled = None
   \<and> Enable demoEnv ''/p'' ''other'' demoInstalled = (demoInstalled, Err ReadMetadataFailed)"
proof -
  have h1: "\<not> cancelled demoEnv CtxEntry" by code_simp
  have h2: "os_ReadFile (fault demoEnv) (Join [Join [''/p'', ''tool''], ''metadata.json'']) demoInstalled
       = Inr ''enabled|1.0|tool''" by code_simp
  have h3: "unmarshal demoEnv ''enabled|1.0|tool''
       = Some (demoInfo\<lparr>Status := ''enabled'', Version := ''1.0''\<rparr>)" by code_simp
  have h4: "\<not> fault demoEnv (SysWriteFile (Join [Join [''/p'', ''tool''], ''metadata.json'']))"
    by code_simp
  have h5: "marshalIndent demoEnv (demoInfo\<lparr>Status := ''enabled'', Version := ''1.0'', Status := ''disabled''\<rparr>)
       = Some ''disabled|1.0|tool''" by code_simp
  have h6: "readMetadata demoEnv (Join [Join [''/p'', ''other''], ''metadata.json'']) demoInstalled = None"
    by code_simp
  have h7: "snd (Enable demoEnv ''/p'' ''other'' demoInstalled) = Err ReadMetadataFailed" by code_simp
  from Enable_Disable_record [of demoEnv "''/p''" "''tool''" demoInstalled "''enabled|1.0|tool''"
      "demoInfo\<lparr>Status := ''enabled'', Version := ''1.0''\<rparr>" "''disabled|1.0|tool''"]
    h1 h2 h3 h4 h5
  have a: "Disable demoEnv ''/p'' ''tool'' demoInstalled
       = (put (Join [Join [''/p'', ''tool''], ''metadata.json'']) (FileNode ''disabled|1.0|tool'')
            demoInstalled, Ok ())" by blast
  from Enable_Disable_record [of demoEnv "''/p''" "''other''" demoInstalled] h6
  obtain x where "Enable demoEnv ''/p'' ''other'' demoInstalled = (demoInstalled, Err x)" by blast
  with h7 have b: "Enable demoEnv ''/p'' ''other'' demoInstalled = (demoInstalled, Err ReadMetadataFailed)"
    by simp
  from h1 h2 h3 h4 h5 h6 a b show ?thesis by blast
qed

section \<open>Results on extraction\<close>

text \<open>
  Claim C2. The claim asks that an archive entry whose path leaves the destination
  directory stops the extraction with the invalid-path error and that nothing is
  written outside the destination. The check of the code compares strings:
  \<open>strings.HasPrefix(target, destDir)\<close>, with no separator after \<open>destDir\<close>. For the
  destination \<open>/p/tool/tool\<close> the entry \<open>../tool-evil/x\<close> resolves to
  \<open>/p/tool/tool-evil/x\<close>, which is outside the destination and yet has it as a string
  prefix: the tar loop and the zip loop both accept the entry and write the file. The
  entry \<open>../../etc/passwd\<close> of the specification is refused. Through \<open>Install\<close>, with a
  fetched record whose name is empty, the destination is the plugin directory \<open>/p/tool\<close>
  itself and the file \<open>/p/tool-evil/x\<close> stays behind after the failed installation has
  removed \<open>/p/tool\<close>. The theorem evaluates the code at these inputs.
\<close>

theorem extract_prefix_check_escapes:
  "Join [''/p/tool/tool'', Clean ''../tool-evil/x''] = ''/p/tool/tool-evil/x''
   \<and> \<not> inside ''/p/tool/tool'' ''/p/tool/tool-evil/x''
   \<and> snd (extractTarLoop (\<lambda>c. False) ''/p/tool/tool'' evilTar False destOnly) = Ok ()
   \<and> lookup (fst (extractTarLoop (\<lambda>c. False) ''/p/tool/tool'' evilTar False destOnly))
         ''/p/tool/tool-evil/x'' = Some (FileNode ''evil'')
   \<and> snd (extractZipLoop (\<lambda>c. False) ''/p/tool/tool'' evilZip destOnly) = Ok ()
   \<and> lookup (fst (extractZipLoop (\<lambda>c. False) ''/p/tool/tool'' evilZip destOnly))
         ''/p/tool/tool-evil/x'' = Some (FileNode ''evil'')
   \<and> extractTarLoop (\<lambda>c. False) ''/p/tool/tool'' passwdTar False destOnly
         = (destOnly, Err (InvalidTarPath ''../../etc/passwd''))
   \<and> snd (Install archiveEnv ''/p'' ''tool'' ''1.0'' []) = Panic
   \<and> lookup (fst (Install archiveEnv ''/p'' ''tool'' ''1.0'' [])) ''/p/tool'' = None
   \<and> lookup (fst (Install archiveEnv ''/p'' ''tool'' ''1.0'' [])) ''/p/tool-evil/x''
         = Some (FileNode ''evil'')"
  by code_simp

section \<open>Cleaned paths\<close>

text \<open>
  What \<open>Clean\<close> returns is a path in normal form: the rendering of a list of elements
  that are not empty, not \<open>.\<close> and have no separator, where \<open>..\<close> stands only at the
  front of a relative path. \<open>normal r cs\<close> says so of the elements \<open>cs\<close> of a rooted
  (\<open>r\<close>) or relative path, and \<open>render r cs\<close> is the path. \<open>Clean\<close> leaves such a path as
  it is, also with further plain elements after it; hence \<open>Dir\<close> of a cleaned path is a
  string prefix of the path (or \<open>.\<close>), and joining the staging directory of an upgrade
  with plain names only appends to it. The parent that \<open>os.MkdirAll\<close> computes for a
  cleaned path of two elements or more is the path without its last element, as is its
  \<open>Dir\<close>; and joining any path with a plain name other than \<open>..\<close> appends the name to
  the cleaned path.
\<close>

definition plain :: "string \<Rightarrow> bool" where
  "plain c \<longleftrightarrow> c \<noteq> [] \<and> c \<noteq> ''.'' \<and> CHR ''/'' \<notin> set c"

fun normalRev :: "bool \<Rightarrow> string list \<Rightarrow> bool" where
  "normalRev r [] = True"
| "normalRev r (c # cs) =
     (plain c \<and> (c = ''..'' \<longrightarrow> \<not> r \<and> (cs = [] \<or> hd cs = ''..'')) \<and> normalRev r cs)"

definition normal :: "bool \<Rightarrow> string list \<Rightarrow> bool" where
  "normal r cs = normalRev r (rev cs)"

lemma normal_Nil: "normal r []"
  by (simp add: normal_def)

lemma normal_snoc:
  "normal r (cs @ [c]) \<longleftrightarrow>
     plain c \<and> (c = ''..'' \<longrightarrow> \<not> r \<and> (cs = [] \<or> last cs = ''..'')) \<and> normal r cs"
  by (auto simp: normal_def hd_rev)

lemma normal_single: "normal r [c] \<longleftrightarrow> plain c \<and> (c = ''..'' \<longrightarrow> \<not> r)"
  by (simp add: normal_def)

lemma normal_butlast: "normal r cs \<Longrightarrow> normal r (butlast cs)"
  by (cases cs rule: rev_cases) (auto simp: normal_snoc normal_Nil)

lemma normal_prefix: "normal r (xs @ ys) \<Longrightarrow> normal r xs"
proof (induction ys rule: rev_induct)
  case Nil
  then show ?case by simp
next
  case (snoc y ys)
  from snoc.prems have "normal r ((xs @ ys) @ [y])" by simp
  then have "normal r (xs @ ys)" unfolding normal_snoc by blast
  then show ?case by (rule snoc.IH)
qed

lemma normal_plain: "normal r cs \<Longrightarrow> c \<in> set cs \<Longrightarrow> plain c"
proof (induction cs rule: rev_induct)
  case Nil
  then show ?case by simp
next
  case (snoc x xs)
  then show ?case by (auto simp: normal_snoc)
qed

lemma splitSlash_nonempty: "splitSlash s \<noteq> []"
  by (induction s) (auto split: list.splits)

lemma splitSlash_append: "splitSlash (a @ CHR ''/'' # b) = splitSlash a @ splitSlash b"
proof (induction a)
  case Nil
  then show ?case by simp
next
  case (Cons c a)
  obtain w ws where s: "splitSlash a = w # ws"
    using splitSlash_nonempty [of a] by (cases "splitSlash a") auto
  with Cons show ?case by simp
qed

lemma splitSlash_plain: "CHR ''/'' \<notin> set c \<Longrightarrow> splitSlash c = [c]"
  by (induction c) auto

lemma splitSlash_no_slash: "c \<in> set (splitSlash s) \<Longrightarrow> CHR ''/'' \<notin> set c"
proof (induction s arbitrary: c)
  case Nil
  then show ?case by simp
next
  case (Cons x s)
  obtain w ws where s: "splitSlash s = w # ws"
    using splitSlash_nonempty [of s] by (cases "splitSlash s") auto
  show ?case
  proof (cases "x = CHR ''/''")
    case True
    with Cons show ?thesis by auto
  next
    case False
    with Cons.prems s have "c = x # w \<or> c \<in> set ws" by simp
    with Cons.IH [of w] Cons.IH [of c] s False show ?thesis by auto
  qed
qed

lemma joinSlash_Cons: "cs \<noteq> [] \<Longrightarrow> joinSlash (c # cs) = c @ CHR ''/'' # joinSlash cs"
  by (cases cs) auto

lemma splitSlash_joinSlash:
  "cs \<noteq> [] \<Longrightarrow> \<forall>c \<in> set cs. CHR ''/'' \<notin> set c \<Longrightarrow> splitSlash (joinSlash cs) = cs"
proof (induction cs)
  case Nil
  then show ?case by simp
next
  case (Cons c cs)
  show ?case
  proof (cases "cs = []")
    case True
    with Cons.prems show ?thesis by (simp add: splitSlash_plain)
  next
    case False
    with Cons show ?thesis
      by (simp add: joinSlash_Cons splitSlash_append splitSlash_plain)
  qed
qed

lemma joinSlash_snoc: "cs \<noteq> [] \<Longrightarrow> joinSlash (cs @ [c]) = joinSlash cs @ CHR ''/'' # c"
proof (induction cs)
  case Nil
  then show ?case by simp
next
  case (Cons a cs)
  then show ?case by (cases "cs = []") (simp_all add: joinSlash_Cons)
qed

lemma cleanStep_normal:
  "normal r out \<Longrightarrow> CHR ''/'' \<notin> set elem \<Longrightarrow> normal r (cleanStep r out elem)"
  unfolding cleanStep_def
  by (auto simp: normal_snoc normal_single normal_butlast plain_def)

lemma foldl_cleanStep_normal:
  "normal r out \<Longrightarrow> \<forall>c \<in> set elems. CHR ''/'' \<notin> set c \<Longrightarrow>
     normal r (foldl (cleanStep r) out elems)"
proof (induction elems arbitrary: out)
  case Nil
  then show ?case by simp
next
  case (Cons a elems)
  from Cons.prems have "normal r (cleanStep r out a)" by (intro cleanStep_normal) auto
  from Cons.IH [OF this] Cons.prems show ?case by simp
qed

lemma Clean_is_render:
  "\<exists>cs. normal (path \<noteq> [] \<and> hd path = CHR ''/'') cs
       \<and> Clean path = render (path \<noteq> [] \<and> hd path = CHR ''/'') cs"
proof (cases "path = []")
  case True
  then have "Clean path = render False []" by (simp add: Clean_def render_def)
  with True normal_Nil show ?thesis by auto
next
  case False
  define r where "r = (hd path = CHR ''/'')"
  define out where "out = foldl (cleanStep r) [] (splitSlash path)"
  have n: "normal r out"
    unfolding out_def
    by (intro foldl_cleanStep_normal normal_Nil) (auto dest: splitSlash_no_slash)
  have "Clean path = render r out"
    using False by (simp add: Clean_def Let_def render_def r_def out_def)
  with n False show ?thesis unfolding r_def by auto
qed

lemma cleanStep_keep:
  "normal r (acc @ [c]) \<Longrightarrow> cleanStep r acc c = acc @ [c]"
  by (auto simp: normal_snoc cleanStep_def plain_def)

lemma foldl_cleanStep_fix:
  "normal r (acc @ cs) \<Longrightarrow> foldl (cleanStep r) acc cs = acc @ cs"
proof (induction cs arbitrary: acc)
  case Nil
  then show ?case by simp
next
  case (Cons c cs)
  from Cons.prems have n: "normal r ((acc @ [c]) @ cs)" by simp
  then have "normal r (acc @ [c])" by (rule normal_prefix)
  then have "cleanStep r acc c = acc @ [c]" by (rule cleanStep_keep)
  with Cons.IH [OF n] show ?case by simp
qed

lemma cleanStep_empty: "cleanStep r acc [] = acc"
  by (simp add: cleanStep_def)

lemma foldl_cleanStep_filter:
  "foldl (cleanStep r) acc ys = foldl (cleanStep r) acc (filter (\<lambda>c. c \<noteq> []) ys)"
  by (induction ys arbitrary: acc) (simp_all add: cleanStep_empty)

lemma Clean_eq_render:
  assumes "path \<noteq> []" "(hd path = CHR ''/'') = r"
    and "filter (\<lambda>c. c \<noteq> []) (splitSlash path) = cs" "normal r cs"
  shows "Clean path = render r cs"
proof -
  have "foldl (cleanStep r) [] (splitSlash path) = foldl (cleanStep r) [] cs"
    using foldl_cleanStep_filter [of r "[]" "splitSlash path"] assms(3) by simp
  also have "\<dots> = cs"
    using foldl_cleanStep_fix [of r "[]" cs] assms(4) by simp
  finally have "foldl (cleanStep r) [] (splitSlash path) = cs" .
  with assms(1,2) show ?thesis
    by (auto simp: Clean_def Let_def render_def)
qed

lemma normal_filter: "normal r cs \<Longrightarrow> filter (\<lambda>c. c \<noteq> []) cs = cs"
proof -
  assume "normal r cs"
  then have "\<forall>c \<in> set cs. c \<noteq> []"
    using normal_plain [of r cs] by (auto simp: plain_def)
  then show ?thesis by (simp add: filter_id_conv)
qed

lemma normal_no_slash: "normal r cs \<Longrightarrow> \<forall>c \<in> set cs. CHR ''/'' \<notin> set c"
  using normal_plain [of r cs] by (auto simp: plain_def)

lemma split_join_filter:
  "normal r xs \<Longrightarrow> filter (\<lambda>c. c \<noteq> []) (splitSlash (joinSlash xs)) = xs"
proof (cases "xs = []")
  case True
  then show ?thesis by simp
next
  case False
  assume n: "normal r xs"
  with False have "splitSlash (joinSlash xs) = xs"
    by (intro splitSlash_joinSlash normal_no_slash [of r])
  with n show ?thesis by (simp add: normal_filter)
qed

lemma hd_joinSlash: "cs \<noteq> [] \<Longrightarrow> hd cs \<noteq> [] \<Longrightarrow> hd (joinSlash cs @ z) = hd (hd cs)"
  by (cases cs rule: joinSlash.cases) auto

lemma hd_render:
  assumes "normal r cs"
  shows "render r cs @ z \<noteq> [] \<and> (hd (render r cs @ z) = CHR ''/'') = r"
proof (cases r)
  case True
  then show ?thesis by (simp add: render_def)
next
  case False
  show ?thesis
  proof (cases "cs = []")
    case True
    with False show ?thesis by (simp add: render_def)
  next
    case ne: False
    then have "hd cs \<in> set cs" by simp
    with assms have p: "plain (hd cs)" by (rule normal_plain)
    then have h: "hd cs \<noteq> []" "hd (hd cs) \<noteq> CHR ''/''"
      by (auto simp: plain_def) (metis hd_in_set)
    from ne h(1) have "joinSlash cs \<noteq> []" by (rule joinSlash_nonempty)
    with False ne h hd_joinSlash [OF ne h(1), of z] show ?thesis
      by (simp add: render_def)
  qed
qed

lemma split_render_filter:
  assumes "normal r cs" "r \<or> cs \<noteq> []"
  shows "filter (\<lambda>c. c \<noteq> []) (splitSlash (render r cs)) = cs"
proof (cases r)
  case True
  have "splitSlash (render r cs) = splitSlash [] @ splitSlash (joinSlash cs)"
    using True splitSlash_append [of "[]" "joinSlash cs"] by (simp add: render_def)
  with split_join_filter [OF assms(1)] show ?thesis by simp
next
  case False
  with assms(2) have "render r cs = joinSlash cs" by (simp add: render_def)
  with split_join_filter [OF assms(1)] show ?thesis by simp
qed

lemma Clean_render_ext:
  assumes "normal r (cs @ xs)" "r \<or> cs \<noteq> []"
  shows "Clean (render r cs @ CHR ''/'' # joinSlash xs) = render r (cs @ xs)"
proof -
  from assms(1) have ncs: "normal r cs" by (rule normal_prefix)
  have nxs_plain: "\<forall>c \<in> set xs. c \<noteq> [] \<and> CHR ''/'' \<notin> set c"
    using normal_plain [OF assms(1)] by (auto simp: plain_def)
  have fx: "filter (\<lambda>c. c \<noteq> []) (splitSlash (joinSlash xs)) = xs"
  proof (cases "xs = []")
    case True
    then show ?thesis by simp
  next
    case False
    with nxs_plain have "splitSlash (joinSlash xs) = xs"
      by (intro splitSlash_joinSlash) auto
    with nxs_plain show ?thesis by (simp add: filter_id_conv)
  qed
  have "filter (\<lambda>c. c \<noteq> []) (splitSlash (render r cs @ CHR ''/'' # joinSlash xs)) = cs @ xs"
    using split_render_filter [OF ncs assms(2)] fx by (simp add: splitSlash_append)
  moreover from hd_render [OF ncs, of "CHR ''/'' # joinSlash xs"]
  have "render r cs @ CHR ''/'' # joinSlash xs \<noteq> []"
    "(hd (render r cs @ CHR ''/'' # joinSlash xs) = CHR ''/'') = r" by blast+
  ultimately show ?thesis using assms(1) by (intro Clean_eq_render)
qed

lemma dirpart_slash:
  assumes "CHR ''/'' \<notin> set c"
  shows "rev (dropWhile (\<lambda>x. x \<noteq> CHR ''/'') (rev (u @ CHR ''/'' # c))) = u @ ''/''"
proof -
  have "dropWhile (\<lambda>x. x \<noteq> CHR ''/'') (rev c @ CHR ''/'' # rev u) = CHR ''/'' # rev u"
    using assms by (subst dropWhile_append2) auto
  then show ?thesis by simp
qed

lemma dirpart_none:
  assumes "CHR ''/'' \<notin> set c"
  shows "rev (dropWhile (\<lambda>x. x \<noteq> CHR ''/'') (rev c)) = []"
proof -
  have "dropWhile (\<lambda>x. x \<noteq> CHR ''/'') (rev c) = []"
    using assms by (auto simp: dropWhile_eq_Nil_conv)
  then show ?thesis by simp
qed

lemma Clean_root: "Clean ''/'' = ''/''"
  by code_simp

lemma Clean_empty: "Clean [] = ''.''"
  by (simp add: Clean_def)

lemma Dir_render:
  assumes "normal r cs"
  shows "prefix (Dir (render r cs)) (render r cs) \<or> Dir (render r cs) = ''.''"
proof (cases cs rule: rev_cases)
  case Nil
  show ?thesis
  proof (cases r)
    case True
    with Nil have "render r cs = ''/''" by (simp add: render_def)
    moreover have "Dir ''/'' = ''/''" by code_simp
    ultimately show ?thesis by simp
  next
    case False
    with Nil have "render r cs = ''.''" by (simp add: render_def)
    moreover have "Dir ''.'' = ''.''" by code_simp
    ultimately show ?thesis by simp
  qed
next
  case (snoc cs' c)
  from assms snoc have pc: "plain c" and n': "normal r cs'"
    by (auto simp: normal_snoc)
  then have ns: "CHR ''/'' \<notin> set c" by (simp add: plain_def)
  show ?thesis
  proof (cases "cs' = []")
    case True
    show ?thesis
    proof (cases r)
      case T: True
      with True snoc have rc: "render r cs = [] @ CHR ''/'' # c" by (simp add: render_def)
      have "Dir (render r cs) = Clean ''/''"
        unfolding Dir_def rc using dirpart_slash [OF ns, of "[]"] by simp
      with rc Clean_root show ?thesis by simp
    next
      case False
      with True snoc have rc: "render r cs = c" by (simp add: render_def)
      have "Dir (render r cs) = Clean []"
        unfolding Dir_def rc dirpart_none [OF ns] by (rule refl)
      with Clean_empty show ?thesis by simp
    qed
  next
    case False
    have rc: "render r cs = render r cs' @ CHR ''/'' # c"
      using False snoc by (simp add: render_def joinSlash_snoc)
    have "Dir (render r cs) = Clean (render r cs' @ CHR ''/'' # joinSlash [])"
      unfolding Dir_def rc using dirpart_slash [OF ns, of "render r cs'"] by simp
    also have "\<dots> = render r (cs' @ [])"
      using n' False by (intro Clean_render_ext) auto
    finally have "Dir (render r cs) = render r cs'" by simp
    with rc show ?thesis by simp
  qed
qed

lemma Dir_Clean: "prefix (Dir (Clean x)) (Clean x) \<or> Dir (Clean x) = ''.''"
  using Clean_is_render [of x] Dir_render by metis

lemma upgrade_render:
  assumes "normal r cs"
  shows "\<exists>cs'. cs' \<noteq> [] \<and> normal r cs' \<and> render r cs @ ''.upgrade'' = render r cs'"
proof (cases cs rule: rev_cases)
  case Nil
  show ?thesis
  proof (cases r)
    case True
    have "normal r [''.upgrade'']" by (simp add: normal_single plain_def)
    moreover from True Nil have "render r cs @ ''.upgrade'' = render r [''.upgrade'']"
      by (simp add: render_def)
    ultimately show ?thesis by blast
  next
    case False
    have "normal r [''..upgrade'']" by (simp add: normal_single plain_def)
    moreover from False Nil have "render r cs @ ''.upgrade'' = render r [''..upgrade'']"
      by (simp add: render_def)
    ultimately show ?thesis by blast
  qed
next
  case (snoc cs0 k)
  from assms snoc have pk: "plain k" and n0: "normal r cs0"
    by (auto simp: normal_snoc)
  have pl: "plain (k @ ''.upgrade'')" using pk by (auto simp: plain_def)
  have "length (k @ ''.upgrade'') \<noteq> length ''..''" by simp
  then have nd: "k @ ''.upgrade'' \<noteq> ''..''" by metis
  from pl nd n0 have n: "normal r (cs0 @ [k @ ''.upgrade''])" by (simp add: normal_snoc)
  have "render r cs @ ''.upgrade'' = render r (cs0 @ [k @ ''.upgrade''])"
  proof (cases "cs0 = []")
    case True
    with snoc show ?thesis by (simp add: render_def)
  next
    case False
    with snoc show ?thesis by (simp add: render_def joinSlash_snoc)
  qed
  with n show ?thesis by blast
qed

lemma staging_metadata_path:
  "Join [Clean x @ ''.upgrade'', ''metadata.json''] = Clean x @ ''.upgrade'' @ ''/metadata.json''"
proof -
  obtain r cs where n: "normal r cs" and c: "Clean x = render r cs"
    using Clean_is_render [of x] by blast
  from upgrade_render [OF n] obtain cs' where ne: "cs' \<noteq> []" and n': "normal r cs'"
    and t: "render r cs @ ''.upgrade'' = render r cs'" by blast
  have nm: "normal r (cs' @ [''metadata.json''])"
    using n' by (simp add: normal_snoc plain_def)
  have "render r cs' \<noteq> []" using t [symmetric] by simp
  then have "Join [Clean x @ ''.upgrade'', ''metadata.json'']
      = Clean (render r cs' @ CHR ''/'' # joinSlash [''metadata.json''])"
    using c t by (simp add: Join_def)
  also have "\<dots> = render r (cs' @ [''metadata.json''])"
    using nm ne by (intro Clean_render_ext) auto
  also have "\<dots> = render r cs' @ ''/metadata.json''"
    using ne by (simp add: render_def joinSlash_snoc)
  finally show ?thesis using c t by simp
qed

lemma Join_element:
  assumes "normal r cs" "cs \<noteq> []" "el = [] \<or> (plain el \<and> el \<noteq> ''..'')"
  shows "\<exists>cs2. cs2 \<noteq> [] \<and> normal r cs2 \<and> Join [render r cs, el] = render r cs2
           \<and> prefix (render r cs) (render r cs2)"
proof -
  from hd_render [OF assms(1), of "[]"] have tne: "render r cs \<noteq> []" by simp
  from assms(3) show ?thesis
  proof
    assume e: "el = []"
    have "Join [render r cs, el] = Clean (render r cs @ CHR ''/'' # joinSlash [])"
      using tne e by (simp add: Join_def)
    also have "\<dots> = render r (cs @ [])"
      using assms(1,2) by (intro Clean_render_ext) auto
    finally have "Join [render r cs, el] = render r cs" by simp
    with assms(1,2) show ?thesis by auto
  next
    assume p: "plain el \<and> el \<noteq> ''..''"
    then have n: "normal r (cs @ [el])" using assms(1) by (simp add: normal_snoc)
    have "Join [render r cs, el] = Clean (render r cs @ CHR ''/'' # joinSlash [el])"
      using tne by (simp add: Join_def)
    also have "\<dots> = render r (cs @ [el])"
      using n assms(2) by (intro Clean_render_ext) auto
    finally have j: "Join [render r cs, el] = render r (cs @ [el])" .
    have "render r (cs @ [el]) = render r cs @ CHR ''/'' # el"
      using assms(2) by (simp add: render_def joinSlash_snoc)
    then have "prefix (render r cs) (render r (cs @ [el]))" by simp
    with n j show ?thesis by blast
  qed
qed

lemma plain_names_staged:
  assumes "nm = [] \<or> (plain nm \<and> nm \<noteq> ''..'')" "fnm = [] \<or> (plain fnm \<and> fnm \<noteq> ''..'')"
  shows "prefix (Clean x @ ''.upgrade'') (Join [Clean x @ ''.upgrade'', nm])
       \<and> prefix (Clean x @ ''.upgrade'') (Join [Join [Clean x @ ''.upgrade'', nm], fnm])"
proof -
  obtain r cs where n: "normal r cs" and c: "Clean x = render r cs"
    using Clean_is_render [of x] by blast
  from upgrade_render [OF n] obtain cs' where ne: "cs' \<noteq> []" and n': "normal r cs'"
    and t: "render r cs @ ''.upgrade'' = render r cs'" by blast
  from Join_element [OF n' ne assms(1)] obtain cs2 where
    c2: "cs2 \<noteq> []" "normal r cs2" "Join [render r cs', nm] = render r cs2"
      "prefix (render r cs') (render r cs2)" by blast
  from Join_element [OF c2(2) c2(1) assms(2)] obtain cs3 where
    c3: "Join [render r cs2, fnm] = render r cs3" "prefix (render r cs2) (render r cs3)" by blast
  from c2(4) c3(2) have "prefix (render r cs') (render r cs3)" by (meson prefix_order.trans)
  with c t c2 c3 show ?thesis by simp
qed

subsection \<open>Parents of cleaned paths\<close>

lemma last_joinSlash:
  "cs \<noteq> [] \<Longrightarrow> last cs \<noteq> [] \<Longrightarrow> joinSlash cs \<noteq> [] \<and> last (joinSlash cs) = last (last cs)"
proof (cases cs rule: rev_cases)
  case Nil
  assume "cs \<noteq> []"
  with Nil show ?thesis by simp
next
  case (snoc ys y)
  assume "last cs \<noteq> []"
  with snoc have y: "y \<noteq> []" by simp
  show ?thesis
  proof (cases "ys = []")
    case True
    with snoc y show ?thesis by simp
  next
    case False
    with snoc y show ?thesis by (simp add: joinSlash_snoc)
  qed
qed

lemma last_render:
  assumes "normal r cs" "cs \<noteq> []"
  shows "render r cs \<noteq> [] \<and> last (render r cs) \<noteq> CHR ''/''"
proof -
  from assms(2) obtain ys y where cs: "cs = ys @ [y]" by (cases cs rule: rev_cases) auto
  with assms(1) have "plain y" by (simp add: normal_snoc)
  then have y0: "y \<noteq> []" and ns: "CHR ''/'' \<notin> set y" by (simp_all add: plain_def)
  from y0 have "last y \<in> set y" by (rule last_in_set)
  with ns have "last y \<noteq> CHR ''/''" by metis
  with y0 have y: "y \<noteq> []" "last y \<noteq> CHR ''/''" by blast+
  from cs y last_joinSlash [of cs]
  have j: "joinSlash cs \<noteq> []" "last (joinSlash cs) = last y" by simp_all
  with y assms(2) show ?thesis by (simp add: render_def)
qed

lemma parentOf_render:
  assumes "normal r (cs @ [c])" "cs \<noteq> []"
  shows "parentOf (render r (cs @ [c])) = render r cs"
proof -
  let ?D = "render r cs"
  from assms(1) have pc: "plain c" and n: "normal r cs" by (simp_all add: normal_snoc)
  from pc have c: "c \<noteq> []" "CHR ''/'' \<notin> set c" by (simp_all add: plain_def)
  from last_render [OF n assms(2)] have D: "?D \<noteq> []" "last ?D \<noteq> CHR ''/''" by simp_all
  have rc: "render r (cs @ [c]) = ?D @ CHR ''/'' # c"
    using assms(2) by (simp add: render_def joinSlash_snoc)
  define a where "a = dropWhile (\<lambda>x. x = CHR ''/'') (rev (?D @ CHR ''/'' # c))"
  define b where "b = dropWhile (\<lambda>x. x \<noteq> CHR ''/'') a"
  define k where "k = dropWhile (\<lambda>x. x = CHR ''/'') b"
  have par: "parentOf (?D @ CHR ''/'' # c) = (if b = [] then [] else if k = [] then ''/'' else rev k)"
    unfolding parentOf_def Let_def a_def b_def k_def by (rule refl)
  obtain x xs where rcx: "rev c = x # xs" using c(1) by (cases "rev c") auto
  then have "x \<in> set c" by (metis list.set_intros(1) set_rev)
  with c(2) have x: "x \<noteq> CHR ''/''" by auto
  have a: "a = rev c @ CHR ''/'' # rev ?D"
    unfolding a_def using rcx x by simp
  have b: "b = CHR ''/'' # rev ?D"
    unfolding b_def a using c(2) by (subst dropWhile_append2) auto
  obtain z zs where rd: "rev ?D = z # zs" using D(1) by (cases "rev ?D") auto
  then have "z = last ?D" by (metis D(1) hd_rev list.sel(1))
  with D(2) have z: "z \<noteq> CHR ''/''" by simp
  have k: "k = rev ?D"
    unfolding k_def b using rd z by simp
  from par b k D(1) have "parentOf (?D @ CHR ''/'' # c) = rev (rev ?D)" by simp
  with rc show ?thesis by simp
qed

lemma Dir_render_snoc:
  assumes "normal r (cs @ [c])"
  shows "Dir (render r (cs @ [c])) = render r cs"
proof -
  from assms have pc: "plain c" and n: "normal r cs" by (simp_all add: normal_snoc)
  from pc have ns: "CHR ''/'' \<notin> set c" by (simp add: plain_def)
  show ?thesis
  proof (cases "cs = []")
    case True
    show ?thesis
    proof (cases r)
      case r: True
      have "Dir (CHR ''/'' # c) = Clean ''/''"
        unfolding Dir_def using dirpart_slash [OF ns, of "[]"] by simp
      with True r show ?thesis by (simp add: render_def Clean_root)
    next
      case False
      have "Dir c = Clean []"
        by (simp only: Dir_def dirpart_none [OF ns])
      with True False show ?thesis by (simp add: render_def Clean_empty)
    qed
  next
    case False
    have rc: "render r (cs @ [c]) = render r cs @ CHR ''/'' # c"
      using False by (simp add: render_def joinSlash_snoc)
    have "Dir (render r (cs @ [c])) = Clean (render r cs @ CHR ''/'' # joinSlash [])"
      unfolding Dir_def rc using dirpart_slash [OF ns, of "render r cs"] by simp
    also have "\<dots> = render r (cs @ [])"
      using n False by (intro Clean_render_ext) auto
    finally show ?thesis by simp
  qed
qed

lemma under_parent:
  assumes n: "normal r cs" and u: "under d (render r cs)" and d: "d \<noteq> []"
  shows "\<exists>cs'. cs' \<noteq> [] \<and> normal r cs' \<and> parentOf (render r cs) = render r cs'
            \<and> Dir (render r cs) = render r cs' \<and> inside d (render r cs')"
proof (cases cs rule: rev_cases)
  case Nil
  with u d show ?thesis
    by (cases d; cases r) (auto simp: under_def render_def)
next
  case (snoc ys y)
  with n have py: "plain y" and nys: "normal r ys" by (simp_all add: normal_snoc)
  from py have ns: "CHR ''/'' \<notin> set y" by (simp add: plain_def)
  show ?thesis
  proof (cases "ys = []")
    case True
    from u obtain z where z: "render r cs = d @ CHR ''/'' # z"
      by (auto simp: under_def prefix_def)
    show ?thesis
    proof (cases r)
      case r: True
      with True snoc z have "CHR ''/'' # y = d @ CHR ''/'' # z" by (simp add: render_def)
      with d obtain d' where "y = d' @ CHR ''/'' # z" by (cases d) auto
      with ns show ?thesis by simp
    next
      case False
      with True snoc z have "y = d @ CHR ''/'' # z" by (simp add: render_def)
      with ns show ?thesis by simp
    qed
  next
    case False
    let ?D = "render r ys"
    have rc: "render r cs = ?D @ CHR ''/'' # y"
      using False snoc by (simp add: render_def joinSlash_snoc)
    from u obtain z where "render r cs = d @ CHR ''/'' # z"
      by (auto simp: under_def prefix_def)
    with rc have eq: "?D @ CHR ''/'' # y = d @ CHR ''/'' # z" by simp
    then consider us where "?D = d @ us" "us @ CHR ''/'' # y = CHR ''/'' # z"
      | us where "?D @ us = d" "CHR ''/'' # y = us @ CHR ''/'' # z"
      by (auto simp: append_eq_append_conv2)
    then have ins: "inside d ?D"
    proof cases
      case 1
      then show ?thesis by (cases us) (auto simp: inside_def under_def)
    next
      case 2
      show ?thesis
      proof (cases us)
        case Nil
        with 2 show ?thesis by (simp add: inside_def)
      next
        case (Cons u us')
        with 2 have "y = us' @ CHR ''/'' # z" by simp
        with ns show ?thesis by simp
      qed
    qed
    from n snoc False have "parentOf (render r cs) = ?D" by (simp add: parentOf_render)
    moreover from n snoc have "Dir (render r cs) = ?D" by (simp add: Dir_render_snoc)
    ultimately show ?thesis using False nys ins by blast
  qed
qed

subsection \<open>Joining a path with a name\<close>

lemma Clean_fold:
  assumes "path \<noteq> []"
  shows "Clean path
      = render (hd path = CHR ''/'') (foldl (cleanStep (hd path = CHR ''/'')) [] (splitSlash path))"
  using assms by (cases "hd path = CHR ''/''") (simp_all add: Clean_def render_def Let_def)

lemma fold_normal: "normal r (foldl (cleanStep r) [] (splitSlash path))"
  by (intro foldl_cleanStep_normal normal_Nil) (auto dest: splitSlash_no_slash)

lemma render_not_dot:
  assumes "normal r cs" "cs \<noteq> []"
  shows "render r cs \<noteq> ''/'' \<and> render r cs \<noteq> ''.''"
proof -
  from last_render [OF assms] have "last (render r cs) \<noteq> CHR ''/''" by simp
  then have a: "render r cs \<noteq> ''/''" by auto
  from assms(2) obtain ys y where cs: "cs = ys @ [y]" by (cases cs rule: rev_cases) auto
  with assms(1) have py: "plain y" by (simp add: normal_snoc)
  have "render r cs \<noteq> ''.''"
  proof (cases "ys = []")
    case True
    with cs py show ?thesis by (cases r) (auto simp: render_def plain_def)
  next
    case False
    with cs have "render r cs = render r ys @ CHR ''/'' # y"
      by (simp add: render_def joinSlash_snoc)
    then have "CHR ''/'' \<in> set (render r cs)" by simp
    then show ?thesis by auto
  qed
  with a show ?thesis by simp
qed

lemma render_snoc:
  assumes "normal r (cs @ [n])"
  shows "render r (cs @ [n]) = slashed (render r cs) @ n"
proof (cases "cs = []")
  case True
  then show ?thesis by (cases r) (simp_all add: render_def slashed_def)
next
  case False
  from assms have "normal r cs" by (simp add: normal_snoc)
  from render_not_dot [OF this False] have "slashed (render r cs) = render r cs @ ''/''"
    by (simp add: slashed_def)
  moreover have "render r (cs @ [n]) = render r cs @ CHR ''/'' # n"
    using False by (simp add: render_def joinSlash_snoc)
  ultimately show ?thesis by simp
qed

lemma Join_plain:
  assumes "a \<noteq> []" "plain n" "n \<noteq> ''..''"
  shows "Join [a, n] = slashed (Clean a) @ n"
proof -
  define r where "r = (hd a = CHR ''/'')"
  define out where "out = foldl (cleanStep r) [] (splitSlash a)"
  from assms(2) have pn: "n \<noteq> []" "n \<noteq> ''.''" "CHR ''/'' \<notin> set n" by (simp_all add: plain_def)
  have nout: "normal r out" unfolding out_def by (rule fold_normal)
  have ca: "Clean a = render r out"
    using Clean_fold [OF assms(1)] by (simp add: r_def out_def)
  have sp: "splitSlash (a @ CHR ''/'' # n) = splitSlash a @ [n]"
    using pn(3) by (simp add: splitSlash_append splitSlash_plain)
  have st: "cleanStep r out n = out @ [n]"
    using pn assms(3) by (simp add: cleanStep_def)
  have "Join [a, n] = Clean (a @ CHR ''/'' # n)"
    using assms(1) by (simp add: Join_def)
  also have "\<dots> = render r (foldl (cleanStep r) [] (splitSlash (a @ CHR ''/'' # n)))"
    using assms(1) Clean_fold [of "a @ CHR ''/'' # n"] by (simp add: r_def)
  also have "\<dots> = render r (out @ [n])"
    using st by (simp add: sp out_def)
  also have "\<dots> = slashed (render r out) @ n"
    using nout assms(2,3) by (intro render_snoc) (simp add: normal_snoc)
  finally show ?thesis by (simp add: ca)
qed

lemma Join_empty:
  assumes "a \<noteq> []"
  shows "Join [a, []] = Clean a"
proof -
  have sp: "splitSlash (a @ ''/'') = splitSlash a @ [[]]"
    using splitSlash_append [of a "[]"] by simp
  have "Join [a, []] = Clean (a @ ''/'')"
    using assms by (simp add: Join_def)
  also have "\<dots> = render (hd a = CHR ''/'')
      (foldl (cleanStep (hd a = CHR ''/'')) [] (splitSlash (a @ ''/'')))"
    using assms Clean_fold [of "a @ ''/''"] by simp
  also have "\<dots> = render (hd a = CHR ''/'') (foldl (cleanStep (hd a = CHR ''/'')) [] (splitSlash a))"
    by (simp add: sp cleanStep_def)
  also have "\<dots> = Clean a" using Clean_fold [OF assms] by simp
  finally show ?thesis .
qed

lemma Clean_idem: "Clean (Clean a) = Clean a"
proof -
  obtain r cs where n: "normal r cs" and c: "Clean a = render r cs"
    using Clean_is_render [of a] by blast
  show ?thesis
  proof (cases "r \<or> cs \<noteq> []")
    case True
    from hd_render [OF n, of "[]"]
    have "render r cs \<noteq> []" "(hd (render r cs) = CHR ''/'') = r" by simp_all
    from Clean_eq_render [OF this split_render_filter [OF n True] n] c show ?thesis by simp
  next
    case False
    with c have "Clean a = ''.''" by (simp add: render_def)
    moreover have "Clean ''.'' = ''.''" by code_simp
    ultimately show ?thesis by simp
  qed
qed

lemma inside_trans: "inside a b \<Longrightarrow> inside b c \<Longrightarrow> inside a c"
proof -
  assume ab: "inside a b" and bc: "inside b c"
  have "prefix (a @ ''/'') c" if "prefix (a @ ''/'') b" "prefix (b @ ''/'') c"
  proof -
    have "prefix b (b @ ''/'')" by simp
    with that show ?thesis by (meson prefix_order.trans)
  qed
  with ab bc show ?thesis by (auto simp: inside_def under_def)
qed

lemma child_inside:
  assumes "a = Clean y" "a \<noteq> ''/''" "a \<noteq> ''.''" "n = [] \<or> (plain n \<and> n \<noteq> ''..'')"
  shows "inside a (Join [a, n]) \<and> (\<exists>z. Join [a, n] = Clean z)
       \<and> Join [a, n] \<noteq> ''/'' \<and> Join [a, n] \<noteq> ''.''"
proof -
  from assms(1) have ne: "a \<noteq> []" by (simp add: Clean_nonempty)
  from assms(1) have ca: "Clean a = a" by (simp add: Clean_idem)
  from assms(4) show ?thesis
  proof
    assume "n = []"
    with Join_empty [OF ne] ca have "Join [a, n] = a" by simp
    with assms(1,2,3) show ?thesis by (auto simp: inside_def)
  next
    assume "plain n \<and> n \<noteq> ''..''"
    with Join_plain [OF ne] ca assms(2,3) have j: "Join [a, n] = a @ ''/'' @ n"
      by (simp add: slashed_def)
    have "\<exists>z. Join [a, n] = Clean z" using ne by (auto simp: Join_def)
    moreover have "length (Join [a, n]) \<noteq> length ''/''" using ne j by (cases a) auto
    then have "Join [a, n] \<noteq> ''/'' \<and> Join [a, n] \<noteq> ''.''" by auto
    ultimately show ?thesis using j by (auto simp: inside_def under_def)
  qed
qed

lemma plain_names_inside:
  assumes "d = Clean y" "d \<noteq> ''/''" "d \<noteq> ''.''"
    and "nm = [] \<or> (plain nm \<and> nm \<noteq> ''..'')" "fnm = [] \<or> (plain fnm \<and> fnm \<noteq> ''..'')"
  shows "inside d (Join [d, nm]) \<and> inside d (Join [Join [d, nm], fnm])"
proof -
  from child_inside [OF assms(1,2,3,4)] obtain z where
    a: "inside d (Join [d, nm])" "Join [d, nm] = Clean z"
      "Join [d, nm] \<noteq> ''/''" "Join [d, nm] \<noteq> ''.''" by blast
  from child_inside [OF a(2,3,4) assms(5)]
  have "inside (Join [d, nm]) (Join [Join [d, nm], fnm])" by blast
  with a(1) show ?thesis by (blast intro: inside_trans)
qed

section \<open>Results on List\<close>





section \<open>What extraction and staging may touch\<close>

text \<open>
  \<open>touches d fs fs'\<close> bounds the difference between two file systems: a path whose node
  differs has \<open>d\<close> as a string prefix, or it was absent before and is a string prefix of
  \<open>d\<close> (a parent directory that \<open>os.MkdirAll\<close> had to create) or the directory \<open>.\<close>.
  Every extraction into \<open>d\<close> and every run of \<open>writePluginFiles\<close> whose two paths start
  with \<open>d\<close> stays within that bound: it is what the prefix check of the extractors
  does guarantee.
\<close>

definition touches :: "string \<Rightarrow> fs \<Rightarrow> fs \<Rightarrow> bool" where
  "touches d fs fs' \<longleftrightarrow>
     (\<forall>q. lookup fs' q = lookup fs q \<or> prefix d q
          \<or> (lookup fs q = None \<and> (prefix q d \<or> q = ''.'')))"

lemma touches_refl: "touches d fs fs"
  by (simp add: touches_def)

lemma touches_trans: "touches d a b \<Longrightarrow> touches d b c \<Longrightarrow> touches d a c"
  unfolding touches_def by metis

lemma touches_mono:
  assumes "prefix d d'" "touches d' a b"
  shows "touches d a b"
  unfolding touches_def
proof
  fix q
  from assms(2) have "lookup b q = lookup a q \<or> prefix d' q
      \<or> (lookup a q = None \<and> (prefix q d' \<or> q = ''.''))"
    by (simp add: touches_def)
  moreover have "prefix d' q \<Longrightarrow> prefix d q" using assms(1) by (meson prefix_order.trans)
  moreover have "prefix q d' \<Longrightarrow> prefix d q \<or> prefix q d"
    using assms(1) by (meson prefix_same_cases)
  ultimately show "lookup b q = lookup a q \<or> prefix d q
      \<or> (lookup a q = None \<and> (prefix q d \<or> q = ''.''))" by blast
qed

lemma os_MkdirAll_touches:
  assumes "(prefix p t \<and> prefix d t) \<or> p = ''.''" "os_MkdirAll flt p fs = (fs', ok)"
  shows "touches d fs fs'"
  unfolding touches_def
proof
  fix q
  from os_MkdirAll_lookup [OF assms(2), of q]
  have c: "lookup fs' q = lookup fs q \<or> (lookup fs q = None \<and> prefix q p)" by blast
  have "prefix q p \<Longrightarrow> prefix d q \<or> prefix q d \<or> q = ''.''"
  proof -
    assume qp: "prefix q p"
    from assms(1) show ?thesis
    proof
      assume "prefix p t \<and> prefix d t"
      with qp have "prefix q t" "prefix d t" by (meson prefix_order.trans)+
      then show ?thesis by (meson prefix_same_cases)
    next
      assume "p = ''.''"
      with qp have "q = [] \<or> q = ''.''" by (cases q) auto
      then show ?thesis by auto
    qed
  qed
  with c show "lookup fs' q = lookup fs q \<or> prefix d q
      \<or> (lookup fs q = None \<and> (prefix q d \<or> q = ''.''))" by blast
qed

lemma put_touches: "prefix d p \<Longrightarrow> touches d fs (put p n fs)"
  by (simp add: touches_def lookup_put)

lemma os_OpenFile_touches: "prefix d p \<Longrightarrow> os_OpenFile flt p fs = (fs', ok) \<Longrightarrow> touches d fs fs'"
  by (auto simp: os_OpenFile_def touches_refl put_touches split: if_splits option.splits)

lemma io_Copy_touches: "prefix d p \<Longrightarrow> io_Copy flt p b f fs = (fs', ok) \<Longrightarrow> touches d fs fs'"
  by (auto simp: io_Copy_def touches_refl put_touches split: if_splits option.splits node.splits)

lemma os_WriteFile_touches: "prefix d p \<Longrightarrow> os_WriteFile flt p b fs = (fs', ok) \<Longrightarrow> touches d fs fs'"
  by (auto simp: os_WriteFile_def touches_refl put_touches split: if_splits)

lemma Join_target_Clean: "\<exists>x. Join [d, Clean n] = Clean x"
proof -
  have "dropWhile (\<lambda>e. e = []) [d, Clean n] \<noteq> []"
    using Clean_nonempty [of n] by simp
  then show ?thesis by (auto simp: Join_def split: list.splits)
qed

lemma target_Dir:
  "prefix (Dir (Join [d, Clean n])) (Join [d, Clean n]) \<or> Dir (Join [d, Clean n]) = ''.''"
  using Join_target_Clean [of d n] Dir_Clean by metis

lemma write_entry_touches:
  assumes "prefix d target" "prefix (Dir target) target \<or> Dir target = ''.''"
    and "os_MkdirAll flt (Dir target) fs = (fs1, ok1)"
    and "os_OpenFile flt target fs1 = (fs2, ok2)"
    and "io_Copy flt target b f fs2 = (fs3, ok3)"
  shows "touches d fs fs1 \<and> touches d fs fs2 \<and> touches d fs fs3"
proof -
  have t1: "touches d fs fs1"
    using assms(1,2) by (intro os_MkdirAll_touches [OF _ assms(3), of target]) auto
  have t2: "touches d fs1 fs2" using assms(1,4) by (rule os_OpenFile_touches)
  have t3: "touches d fs2 fs3" using assms(1,5) by (rule io_Copy_touches)
  from t1 t2 t3 show ?thesis by (meson touches_trans)
qed

lemma extractTarLoop_touches: "touches d fs (fst (extractTarLoop flt d entries endErr fs))"
proof (induction entries arbitrary: fs)
  case Nil
  then show ?case by (simp add: touches_refl)
next
  case (Cons h rest)
  let ?t = "Join [d, Clean (tname h)]"
  show ?case
  proof (cases "prefix d ?t")
    case False
    then show ?thesis by (simp add: Let_def touches_refl)
  next
    case True
    show ?thesis
    proof (cases "ttype h")
      case TypeDir
      obtain fs1 ok1 where mk: "os_MkdirAll flt ?t fs = (fs1, ok1)"
        by (cases "os_MkdirAll flt ?t fs")
      have t1: "touches d fs fs1"
        using True by (intro os_MkdirAll_touches [OF _ mk, of ?t]) auto
      from Cons.IH [of fs1] t1 have "touches d fs (fst (extractTarLoop flt d rest endErr fs1))"
        by (rule touches_trans [rotated])
      with t1 True TypeDir mk show ?thesis by (cases ok1) (simp_all add: Let_def)
    next
      case TypeReg
      obtain fs1 ok1 where mk: "os_MkdirAll flt (Dir ?t) fs = (fs1, ok1)"
        by (cases "os_MkdirAll flt (Dir ?t) fs")
      obtain fs2 ok2 where op: "os_OpenFile flt ?t fs1 = (fs2, ok2)"
        by (cases "os_OpenFile flt ?t fs1")
      obtain fs3 ok3 where cp: "io_Copy flt ?t (tdata h) (tdata_fails h) fs2 = (fs3, ok3)"
        by (cases "io_Copy flt ?t (tdata h) (tdata_fails h) fs2")
      from write_entry_touches [OF True target_Dir mk op cp]
      have t: "touches d fs fs1" "touches d fs fs2" "touches d fs fs3" by blast+
      from Cons.IH [of fs3] t(3) have "touches d fs (fst (extractTarLoop flt d rest endErr fs3))"
        by (rule touches_trans [rotated])
      with t True TypeReg mk op cp show ?thesis
        by (cases ok1; cases ok2; cases ok3) (simp_all add: Let_def)
    next
      case TypeOther
      with True Cons.IH [of fs] show ?thesis by (simp add: Let_def)
    qed
  qed
qed

lemma extractZipLoop_touches: "touches d fs (fst (extractZipLoop flt d files fs))"
proof (induction files arbitrary: fs)
  case Nil
  then show ?case by (simp add: touches_refl)
next
  case (Cons h rest)
  let ?t = "Join [d, Clean (zname h)]"
  show ?case
  proof (cases "prefix d ?t")
    case False
    then show ?thesis by (simp add: Let_def touches_refl)
  next
    case True
    show ?thesis
    proof (cases "zisdir h")
      case isdir: True
      obtain fs1 ok1 where mk: "os_MkdirAll flt ?t fs = (fs1, ok1)"
        by (cases "os_MkdirAll flt ?t fs")
      have t1: "touches d fs fs1"
        using True by (intro os_MkdirAll_touches [OF _ mk, of ?t]) auto
      from Cons.IH [of fs1] t1 have "touches d fs (fst (extractZipLoop flt d rest fs1))"
        by (rule touches_trans [rotated])
      with t1 True isdir mk show ?thesis by (cases ok1) (simp_all add: Let_def)
    next
      case False
      obtain fs1 ok1 where mk: "os_MkdirAll flt (Dir ?t) fs = (fs1, ok1)"
        by (cases "os_MkdirAll flt (Dir ?t) fs")
      obtain fs2 ok2 where op: "os_OpenFile flt ?t fs1 = (fs2, ok2)"
        by (cases "os_OpenFile flt ?t fs1")
      obtain fs3 ok3 where cp: "io_Copy flt ?t (zdata h) (zdata_fails h) fs2 = (fs3, ok3)"
        by (cases "io_Copy flt ?t (zdata h) (zdata_fails h) fs2")
      from write_entry_touches [OF True target_Dir mk op cp]
      have t: "touches d fs fs1" "touches d fs fs2" "touches d fs fs3" by blast+
      from Cons.IH [of fs3] t(3) have "touches d fs (fst (extractZipLoop flt d rest fs3))"
        by (rule touches_trans [rotated])
      with t True False mk op cp show ?thesis
        by (cases ok1; cases ok2; cases ok3) (simp_all add: Let_def)
    qed
  qed
qed

lemma runProcessor_touches: "touches d fs (fst (runProcessor e p r d fs))"
proof -
  have tar: "touches d fs (fst (extractTar e r d fs))"
    using extractTarLoop_touches [of d fs "fault e" "fst (tarEntries e r)" "snd (tarEntries e r)"]
    by (auto simp: extractTar_def split: prod.splits result.splits)
  have zip: "touches d fs (fst (extractZip e r d fs))"
    using extractZipLoop_touches [of d fs "fault e"]
    by (auto simp: extractZip_def touches_refl split: prod.splits result.splits option.splits)
      (metis fst_conv)+
  show ?thesis
    using tar zip
    by (cases p) (auto simp: runProcessor_def touches_refl split: option.splits)
qed

lemma processFile_touches: "touches d fs (fst (processFile e k r d procs fs))"
proof (induction procs arbitrary: k r fs)
  case Nil
  then show ?case by (simp add: touches_refl)
next
  case (Cons p procs)
  obtain fs1 r1 where rp: "runProcessor e p r d fs = (fs1, r1)"
    by (cases "runProcessor e p r d fs")
  from runProcessor_touches [of d fs e p r] rp have t1: "touches d fs fs1" by simp
  have "touches d fs (fst (processFile e (Suc k) r' d procs fs1))" for r'
    using t1 Cons.IH [of fs1 "Suc k" r'] by (rule touches_trans)
  with t1 rp show ?case
    by (auto simp: touches_refl split: result.splits option.splits)
qed

lemma writePluginFiles_touches:
  assumes "prefix t (Join [dir, Name info])"
    and "prefix t (Join [Join [dir, Name info], FileName info])"
  shows "touches t fs (fst (writePluginFiles e dir info fs))"
proof -
  let ?pd = "Join [dir, Name info]"
  let ?bin = "Join [?pd, FileName info]"
  obtain fs1 ok1 where mk: "os_MkdirAll (fault e) ?pd fs = (fs1, ok1)"
    by (cases "os_MkdirAll (fault e) ?pd fs")
  have t1: "touches t fs fs1"
    using assms(1) by (intro os_MkdirAll_touches [OF _ mk, of ?pd]) auto
  obtain fs2 ok2 where op: "os_OpenFile (fault e) ?bin fs1 = (fs2, ok2)"
    by (cases "os_OpenFile (fault e) ?bin fs1")
  have t2: "touches t fs fs2"
    using t1 os_OpenFile_touches [OF assms(2) op] by (rule touches_trans)
  have t3: "touches t fs fs3" if "io_Copy (fault e) ?bin b f fs2 = (fs3, ok3)" for b f fs3 ok3
    using t2 io_Copy_touches [OF assms(2) that] by (rule touches_trans)
  have t4: "touches t fs (fst (processFile e 0 r ?pd procs fs2))" for r procs
    using t2 touches_mono [OF assms(1) processFile_touches [of ?pd fs2 e 0 r procs]]
    by (rule touches_trans)
  have t5: "touches t fs fs4"
    if "processFile e 0 r ?pd procs fs2 = (fs3, x)" "io_Copy (fault e) ?bin b f fs3 = (fs4, ok4)"
    for r procs fs3 x b f fs4 ok4
  proof -
    from t4 [of r procs] that(1) have "touches t fs fs3" by simp
    then show ?thesis using io_Copy_touches [OF assms(2) that(2)] by (rule touches_trans)
  qed
  have t4': "touches t fs fs3" if "processFile e 0 r ?pd procs fs2 = (fs3, x)" for r procs fs3 x
    using t4 [of r procs] that by simp
  show ?thesis
    unfolding writePluginFiles_def Let_def mk
    using t1 t2 t3 t4' t5 op
    by (cases ok1; cases ok2)
       (auto split: option.splits prod.splits result.splits bool.splits)
qed

lemma not_inside_staging:
  assumes "inside pd q" "prefix (pd @ ''.upgrade'') q"
  shows False
proof -
  from assms(2) obtain z where q: "q = pd @ ''.upgrade'' @ z" by (auto simp: prefix_def)
  from assms(1) show False
  proof (unfold inside_def, elim disjE)
    assume "q = pd"
    with q show False by simp
  next
    assume "under pd q"
    with q show False by (simp add: under_def)
  qed
qed

lemma live_untouched:
  assumes t: "touches (pd @ ''.upgrade'') fs fs'" and ex: "lookup fs pd \<noteq> None"
    and ins: "inside pd q"
  shows "lookup fs' q = lookup fs q"
proof -
  from t have "lookup fs' q = lookup fs q \<or> prefix (pd @ ''.upgrade'') q
      \<or> (lookup fs q = None \<and> (prefix q (pd @ ''.upgrade'') \<or> q = ''.''))"
    by (simp add: touches_def)
  moreover have "\<not> prefix (pd @ ''.upgrade'') q"
    using ins not_inside_staging by blast
  moreover have "\<not> (lookup fs q = None \<and> (prefix q (pd @ ''.upgrade'') \<or> q = ''.''))"
  proof
    assume a: "lookup fs q = None \<and> (prefix q (pd @ ''.upgrade'') \<or> q = ''.'')"
    with ex have "q \<noteq> pd" by auto
    with ins have u: "prefix (pd @ ''/'') q" by (simp add: inside_def under_def)
    from a show False
    proof (elim conjE disjE)
      assume "prefix q (pd @ ''.upgrade'')"
      with u have "prefix (pd @ ''/'') (pd @ ''.upgrade'')" by (meson prefix_order.trans)
      then show False by simp
    next
      assume "q = ''.''"
      with u show False by (cases pd) auto
    qed
  qed
  ultimately show ?thesis by blast
qed

lemma os_Rename_result:
  "os_Rename flt old new fs = (fs', ok) \<Longrightarrow>
     (ok \<and> fs' = moveTree old new fs) \<or> (\<not> ok \<and> fs' = fs)"
  by (auto simp: os_Rename_def split: if_splits)

lemma os_RemoveAll_outside:
  "\<not> inside p q \<Longrightarrow> lookup (fst (os_RemoveAll flt p fs)) q = lookup fs q"
  by (simp add: os_RemoveAll_def lookup_removeTree)

lemma restore_after_backup:
  assumes ex: "lookup fs pd \<noteq> None" and ne: "pd \<noteq> []"
    and nf: "\<not> flt (SysRename (pd @ ''.backup'') pd)"
    and ins: "inside pd q"
  shows "lookup (fst (os_Rename flt (pd @ ''.backup'') pd (moveTree pd (pd @ ''.backup'') fs))) q
       = lookup fs q"
proof -
  let ?b = "pd @ ''.backup''"
  let ?m = "moveTree pd ?b fs"
  have nib: "\<not> inside ?b pd" by (simp add: inside_def under_def)
  have ipd: "inside pd pd" by (simp add: inside_def)
  have ibb: "inside ?b ?b" by (simp add: inside_def)
  have lb: "lookup ?m ?b = lookup fs pd"
    using ibb by (simp add: lookup_moveTree)
  have lp: "lookup ?m pd = None"
    using nib ipd by (simp add: lookup_moveTree)
  have "renameOk ?m ?b pd"
    using ex ne lb lp by (simp add: renameOk_def under_def)
  with nf have r: "fst (os_Rename flt ?b pd ?m) = moveTree ?b pd ?m"
    by (simp add: os_Rename_def)
  have "lookup (moveTree ?b pd ?m) q = lookup ?m (?b @ drop (length pd) q)"
    using ins by (simp add: lookup_moveTree)
  also have "\<dots> = lookup fs (pd @ drop (length ?b) (?b @ drop (length pd) q))"
    using inside_move [OF ins, of ?b] by (simp only: lookup_moveTree if_True)
  also have "\<dots> = lookup fs q"
    using move_back [OF ins, of ?b] by simp
  finally show ?thesis using r by simp
qed

section \<open>Results on Upgrade\<close>

text \<open>
  Claim C4, as amended. Let \<open>Upgrade\<close> pass its precondition checks on an installed
  plugin, and let the fetched record keep its two staging paths under the staging
  directory: \<open><pluginRoot>/<name>.upgrade\<close> is a string prefix of the plugin-specific
  directory (the staging directory joined with the record's \<open>Name\<close>) and of the plugin
  file (that directory joined with the record's \<open>FileName\<close>); by \<open>plain_names_staged\<close>
  this is so whenever each of the two names is empty or a single path element other than
  \<open>.\<close> and \<open>..\<close>. If \<open>Upgrade\<close> then fails (in staging, by a panic, at the first
  rename, or at the second rename with a restore that is not faulted), every path in the
  live plugin directory holds after the call what it held before: content and record,
  hence version, are those from before the upgrade.
\<close>

theorem Upgrade_keeps_live:
  assumes checks: "\<not> cancelled e CtxEntry"
      "os_Stat (fault e) (Join [root, name]) fs \<noteq> Some ENOENT"
      "readMetadata e (Join [Join [root, name], ''metadata.json'']) fs = Some currentInfo"
      "Version currentInfo \<noteq> version"
    and staged: "\<And>info. fetch e name version = Some info \<Longrightarrow>
        prefix (Join [root, name] @ ''.upgrade'') (Join [Join [root, name] @ ''.upgrade'', Name info])
      \<and> prefix (Join [root, name] @ ''.upgrade'')
           (Join [Join [Join [root, name] @ ''.upgrade'', Name info], FileName info])"
    and failed: "snd (Upgrade e root name version fs) \<noteq> Ok ()"
    and restore: "snd (Upgrade e root name version fs) = Err InstallUpgradeFailed \<Longrightarrow>
        \<not> fault e (SysRename (Join [root, name] @ ''.backup'') (Join [root, name]))"
    and ins: "inside (Join [root, name]) q"
  shows "lookup (fst (Upgrade e root name version fs)) q = lookup fs q"
proof -
  let ?pd = "Join [root, name]"
  let ?tmp = "?pd @ ''.upgrade''"
  let ?bak = "?pd @ ''.backup''"
  let ?flt = "fault e"
  from checks(2) have ne: "?pd \<noteq> []" and ex: "lookup fs ?pd \<noteq> None"
    by (auto simp: os_Stat_def split: if_splits option.splits)
  obtain fsS out where st: "upgradeSteps e ?pd name version currentInfo fs = (fsS, out)"
    by (cases "upgradeSteps e ?pd name version currentInfo fs")
  from checks st have up: "Upgrade e root name version fs = (fst (os_RemoveAll ?flt ?tmp fsS), out)"
    by (simp add: Upgrade_def Let_def)
  have nit: "\<not> inside ?tmp q"
  proof
    assume "inside ?tmp q"
    then have "prefix ?tmp q" by (auto simp: inside_def under_def prefix_def)
    with ins show False using not_inside_staging by blast
  qed
  from up nit have fin: "lookup (fst (Upgrade e root name version fs)) q = lookup fsS q"
    by (simp add: os_RemoveAll_outside)
  from up failed have outF: "out \<noteq> Ok ()" by simp
  from up restore have rest: "out = Err InstallUpgradeFailed \<Longrightarrow> \<not> ?flt (SysRename ?bak ?pd)"
    by simp
  have keep: "lookup fs' q = lookup fs q" if "touches ?tmp fs fs'" for fs'
    using that ex ins by (rule live_untouched)
  have keepd: "lookup fs' ?pd \<noteq> None" if "touches ?tmp fs fs'" for fs'
    using live_untouched [OF that ex, of ?pd] ex by (simp add: inside_def)
  \<comment> \<open>the steps, one by one\<close>
  obtain fs1 ok1 where mk: "os_MkdirAll ?flt ?tmp fs = (fs1, ok1)"
    by (cases "os_MkdirAll ?flt ?tmp fs")
  have t1: "touches ?tmp fs fs1"
    by (intro os_MkdirAll_touches [OF _ mk, of ?tmp]) auto
  have "lookup fsS q = lookup fs q"
  proof (cases ok1)
    case False
    with st mk have "fsS = fs1" by (simp add: upgradeSteps_def Let_def)
    with keep [OF t1] show ?thesis by simp
  next
    case ok1: True
    show ?thesis
    proof (cases "fetch e name version")
      case None
      with st mk ok1 have "fsS = fs1" by (simp add: upgradeSteps_def Let_def)
      with keep [OF t1] show ?thesis by simp
    next
      case (Some newInfo)
      obtain fs2 r2 where w: "writePluginFiles e ?tmp newInfo fs1 = (fs2, r2)"
        by (cases "writePluginFiles e ?tmp newInfo fs1")
      from staged [OF Some] have "touches ?tmp fs1 (fst (writePluginFiles e ?tmp newInfo fs1))"
        by (intro writePluginFiles_touches) auto
      with w t1 have t2: "touches ?tmp fs fs2" by (auto intro: touches_trans)
      show ?thesis
      proof (cases "r2 = Ok ()")
        case False
        with st mk ok1 Some w have "fsS = fs2"
          by (cases r2) (simp_all add: upgradeSteps_def Let_def)
        with keep [OF t2] show ?thesis by simp
      next
        case r2: True
        show ?thesis
        proof (cases "marshalIndent e (upgradedInfo e version currentInfo newInfo)")
          case None
          with st mk ok1 Some w r2 have "fsS = fs2" by (simp add: upgradeSteps_def Let_def)
          with keep [OF t2] show ?thesis by simp
        next
          case (Some metadataBytes)
          note mb = this
          obtain fs3 ok3 where wf:
            "os_WriteFile ?flt (Join [?tmp, ''metadata.json'']) metadataBytes fs2 = (fs3, ok3)"
            by (cases "os_WriteFile ?flt (Join [?tmp, ''metadata.json'']) metadataBytes fs2")
          have "\<exists>x. ?pd = Clean x"
            using ne by (auto simp: Join_def split: list.splits)
          then have "prefix ?tmp (Join [?tmp, ''metadata.json''])"
            using staging_metadata_path by (metis append.assoc prefixI)
          from os_WriteFile_touches [OF this wf] t2 have t3: "touches ?tmp fs fs3"
            by (auto intro: touches_trans)
          show ?thesis
          proof (cases ok3)
            case False
            with st mk ok1 \<open>fetch e name version = Some newInfo\<close> w r2 mb wf have "fsS = fs3"
              by (simp add: upgradeSteps_def Let_def)
            with keep [OF t3] show ?thesis by simp
          next
            case ok3: True
            obtain fs4 ok4 where r1: "os_Rename ?flt ?pd ?bak fs3 = (fs4, ok4)"
              by (cases "os_Rename ?flt ?pd ?bak fs3")
            show ?thesis
            proof (cases ok4)
              case False
              with os_Rename_result [OF r1] have "fs4 = fs3" by simp
              with False st mk ok1 \<open>fetch e name version = Some newInfo\<close> w r2 mb wf ok3 r1
              have "fsS = fs3" by (simp add: upgradeSteps_def Let_def)
              with keep [OF t3] show ?thesis by simp
            next
              case ok4: True
              with os_Rename_result [OF r1] have fs4: "fs4 = moveTree ?pd ?bak fs3" by simp
              obtain fs5 ok5 where r2': "os_Rename ?flt ?tmp ?pd fs4 = (fs5, ok5)"
                by (cases "os_Rename ?flt ?tmp ?pd fs4")
              show ?thesis
              proof (cases ok5)
                case True
                with st mk ok1 \<open>fetch e name version = Some newInfo\<close> w r2 mb wf ok3 r1 ok4 r2'
                have "out = Ok ()" by (simp add: upgradeSteps_def Let_def)
                with outF show ?thesis by simp
              next
                case False
                with os_Rename_result [OF r2'] have fs5: "fs5 = fs4" by simp
                from False st mk ok1 \<open>fetch e name version = Some newInfo\<close> w r2 mb wf ok3 r1 ok4 r2'
                have o: "out = Err InstallUpgradeFailed"
                  and f: "fsS = fst (os_Rename ?flt ?bak ?pd fs5)"
                  by (simp_all add: upgradeSteps_def Let_def)
                from rest [OF o] have nf: "\<not> ?flt (SysRename ?bak ?pd)" .
                from restore_after_backup [of fs3 ?pd ?flt q, OF keepd [OF t3] ne nf ins]
                have "lookup fsS q = lookup fs3 q" unfolding f fs5 fs4 .
                with keep [OF t3] show ?thesis by simp
              qed
            qed
          qed
        qed
      qed
    qed
  qed
  with fin show ?thesis by simp
qed

theorem Upgrade_keeps_live_witness:
  "\<not> cancelled failedSwapEnv CtxEntry
   \<and> os_Stat (fault failedSwapEnv) (Join [''/p'', ''tool'']) demoInstalled \<noteq> Some ENOENT
   \<and> readMetadata failedSwapEnv (Join [Join [''/p'', ''tool''], ''metadata.json'']) demoInstalled
        = Some (demoInfo\<lparr>Status := ''enabled'', Version := ''1.0''\<rparr>)
   \<and> Version (demoInfo\<lparr>Status := ''enabled'', Version := ''1.0''\<rparr>) \<noteq> ''2.0''
   \<and> fetch failedSwapEnv ''tool'' ''2.0'' = Some demoInfo
   \<and> prefix (Join [''/p'', ''tool''] @ ''.upgrade'')
        (Join [Join [''/p'', ''tool''] @ ''.upgrade'', Name demoInfo])
   \<and> prefix (Join [''/p'', ''tool''] @ ''.upgrade'')
        (Join [Join [Join [''/p'', ''tool''] @ ''.upgrade'', Name demoInfo], FileName demoInfo])
   \<and> snd (Upgrade failedSwapEnv ''/p'' ''tool'' ''2.0'' demoInstalled) = Err InstallUpgradeFailed
   \<and> \<not> fault failedSwapEnv (SysRename (Join [''/p'', ''tool''] @ ''.backup'') (Join [''/p'', ''tool'']))
   \<and> inside (Join [''/p'', ''tool'']) ''/p/tool/metadata.json''
   \<and> lookup demoInstalled ''/p/tool/metadata.json'' = Some (FileNode ''enabled|1.0|tool'')
   \<and> lookup (fst (Upgrade failedSwapEnv ''/p'' ''tool'' ''2.0'' demoInstalled)) ''/p/tool/metadata.json''
        = Some (FileNode ''enabled|1.0|tool'')"
proof -
  have h1: "\<not> cancelled failedSwapEnv CtxEntry" by code_simp
  have h2: "os_Stat (fault failedSwapEnv) (Join [''/p'', ''tool'']) demoInstalled \<noteq> Some ENOENT"
    by code_simp
  have h3: "readMetadata failedSwapEnv (Join [Join [''/p'', ''tool''], ''metadata.json'']) demoInstalled
        = Some (demoInfo\<lparr>Status := ''enabled'', Version := ''1.0''\<rparr>)" by code_simp
  have h4: "Version (demoInfo\<lparr>Status := ''enabled'', Version := ''1.0''\<rparr>) \<noteq> ''2.0''" by simp
  have f: "fetch failedSwapEnv ''tool'' ''2.0'' = Some demoInfo" by code_simp
  have p1: "prefix (Join [''/p'', ''tool''] @ ''.upgrade'')
        (Join [Join [''/p'', ''tool''] @ ''.upgrade'', Name demoInfo])" by code_simp
  have p2: "prefix (Join [''/p'', ''tool''] @ ''.upgrade'')
        (Join [Join [Join [''/p'', ''tool''] @ ''.upgrade'', Name demoInfo], FileName demoInfo])"
    by code_simp
  have h5: "\<And>info. fetch failedSwapEnv ''tool'' ''2.0'' = Some info \<Longrightarrow>
        prefix (Join [''/p'', ''tool''] @ ''.upgrade'')
          (Join [Join [''/p'', ''tool''] @ ''.upgrade'', Name info])
      \<and> prefix (Join [''/p'', ''tool''] @ ''.upgrade'')
           (Join [Join [Join [''/p'', ''tool''] @ ''.upgrade'', Name info], FileName info])"
    using f p1 p2 by simp
  have h6: "snd (Upgrade failedSwapEnv ''/p'' ''tool'' ''2.0'' demoInstalled) = Err InstallUpgradeFailed"
    by code_simp
  then have h6': "snd (Upgrade failedSwapEnv ''/p'' ''tool'' ''2.0'' demoInstalled) \<noteq> Ok ()" by simp
  have h7: "\<not> fault failedSwapEnv (SysRename (Join [''/p'', ''tool''] @ ''.backup'') (Join [''/p'', ''tool'']))"
    by code_simp
  have h8: "inside (Join [''/p'', ''tool'']) ''/p/tool/metadata.json''" by code_simp
  have h9: "lookup demoInstalled ''/p/tool/metadata.json'' = Some (FileNode ''enabled|1.0|tool'')"
    by code_simp
  from Upgrade_keeps_live [OF h1 h2 h3 h4 h5 h6' h7 h8] h9
  have "lookup (fst (Upgrade failedSwapEnv ''/p'' ''tool'' ''2.0'' demoInstalled)) ''/p/tool/metadata.json''
        = Some (FileNode ''enabled|1.0|tool'')" by simp
  with h1 h2 h3 h4 f p1 p2 h6 h7 h8 h9 show ?thesis by blast
qed

text \<open>
  Without the condition on the fetched record the claim fails. \<open>writePluginFiles\<close> joins
  the staging directory with the record's \<open>Name\<close> and \<open>FileName\<close> as they come from the
  store. With \<open>Name = "../tool"\<close> and \<open>FileName = "metadata.json"\<close> the staging of the
  upgrade of \<open>tool\<close> writes the fetched content over the live record
  \<open>/p/tool/metadata.json\<close>; the second rename is then forced to fail, the restore
  succeeds, \<open>Upgrade\<close> returns its error, and the live record is no longer the one from
  before the upgrade.
\<close>

theorem Upgrade_keeps_live_counterexample:
  "\<not> cancelled evilStoreEnv CtxEntry
   \<and> snd (Upgrade evilStoreEnv ''/p'' ''tool'' ''2.0'' demoInstalled) = Err InstallUpgradeFailed
   \<and> fault evilStoreEnv (SysRename (Join [''/p'', ''tool''] @ ''.upgrade'') (Join [''/p'', ''tool'']))
   \<and> \<not> fault evilStoreEnv (SysRename (Join [''/p'', ''tool''] @ ''.backup'') (Join [''/p'', ''tool'']))
   \<and> inside (Join [''/p'', ''tool'']) ''/p/tool/metadata.json''
   \<and> lookup (fst (Upgrade evilStoreEnv ''/p'' ''tool'' ''2.0'' demoInstalled)) ''/p/tool'' = Some DirNode
   \<and> lookup (fst (Upgrade evilStoreEnv ''/p'' ''tool'' ''2.0'' demoInstalled)) ''/p/tool.backup'' = None
   \<and> lookup demoInstalled ''/p/tool/metadata.json'' = Some (FileNode ''enabled|1.0|tool'')
   \<and> lookup (fst (Upgrade evilStoreEnv ''/p'' ''tool'' ''2.0'' demoInstalled)) ''/p/tool/metadata.json''
        = Some (FileNode ''disabled|6.6|evil'')"
  by code_simp

section \<open>What a failed installation leaves\<close>

text \<open>
  \<open>within d fs fs'\<close> says that \<open>fs'\<close> differs from \<open>fs\<close> only at \<open>d\<close> and below it: with
  these paths removed the two tables are the same, and \<open>d\<close> is a directory of \<open>fs'\<close>.
  \<open>entryBelow d destDir nm\<close> says of an archive entry named \<open>nm\<close> that is extracted into
  \<open>destDir\<close> that, if it passes the prefix check of the extractors, it resolves below the
  directory \<open>d\<close>. \<open>os.MkdirAll\<close> on a cleaned path at or below an existing directory \<open>d\<close>
  walks up parents that are at or below \<open>d\<close>, so that it stays within \<open>d\<close>; so do the
  extraction of entries that resolve below \<open>d\<close> and a run of \<open>writePluginFiles\<close> whose two
  paths are at or below \<open>d\<close>. A table that has nothing at or below \<open>d\<close> is the one that
  \<open>os.RemoveAll\<close> gives back after such steps.
\<close>

definition entryBelow :: "string \<Rightarrow> string \<Rightarrow> string \<Rightarrow> bool" where
  "entryBelow d destDir nm \<longleftrightarrow>
     (prefix destDir (Join [destDir, Clean nm]) \<longrightarrow> under d (Join [destDir, Clean nm]))"

definition within :: "string \<Rightarrow> fs \<Rightarrow> fs \<Rightarrow> bool" where
  "within d fs fs' \<longleftrightarrow> removeTree d fs' = removeTree d fs \<and> lookup fs' d = Some DirNode"

lemma entryBelow_nested: "under d destDir \<Longrightarrow> entryBelow d destDir nm"
proof -
  assume "under d destDir"
  then have "prefix (d @ ''/'') t" if "prefix destDir t" for t
    using that by (auto simp: under_def intro: prefix_order.trans)
  then show ?thesis by (simp add: entryBelow_def under_def)
qed

lemma within_trans: "within d a b \<Longrightarrow> within d b c \<Longrightarrow> within d a c"
  by (simp add: within_def)

lemma within_refl: "lookup fs d = Some DirNode \<Longrightarrow> within d fs fs"
  by (simp add: within_def)

lemma removeTree_put: "inside d p \<Longrightarrow> removeTree d (put p n fs) = removeTree d fs"
  by (auto simp: removeTree_def put_def intro!: filter_cong)

lemma put_within:
  "inside d p \<Longrightarrow> p \<noteq> d \<Longrightarrow> lookup fs d = Some DirNode \<Longrightarrow> within d fs (put p n fs)"
  by (simp add: within_def removeTree_put lookup_put)

lemma removeTree_absent:
  assumes "\<forall>q. inside d q \<longrightarrow> lookup fs q = None"
  shows "removeTree d fs = fs"
proof -
  have "\<not> inside d k" if "(k, v) \<in> set fs" for k v
  proof
    assume "inside d k"
    with assms have "map_of fs k = None" by (simp add: lookup_def)
    then have "k \<notin> fst ` set fs" by (simp add: map_of_eq_None_iff)
    with that show False by force
  qed
  then show ?thesis unfolding removeTree_def by (intro filter_True) auto
qed

subsection \<open>Operations inside a directory\<close>

lemma mkdirAll_within:
  "lookup fs d = Some DirNode \<Longrightarrow> d \<noteq> [] \<Longrightarrow> normal r cs \<Longrightarrow> p = render r cs \<Longrightarrow> inside d p
     \<Longrightarrow> within d fs (fst (mkdirAll p fs))"
proof (induction p fs arbitrary: cs rule: mkdirAll.induct)
  case (1 p fs)
  show ?case
  proof (cases "lookup fs p")
    case (Some n)
    then have "fst (mkdirAll p fs) = fs"
      by (subst mkdirAll.simps) (simp split: node.splits)
    with "1.prems"(1) show ?thesis by (simp add: within_refl)
  next
    case None
    with "1.prems"(1) have pd: "p \<noteq> d" by auto
    with "1.prems"(5) have "under d (render r cs)" by (simp add: inside_def "1.prems"(4))
    from under_parent [OF "1.prems"(3) this "1.prems"(2)] obtain cs' where
      cs': "cs' \<noteq> []" "normal r cs'" "parentOf p = render r cs'" "inside d (parentOf p)"
      by (auto simp: "1.prems"(4))
    from last_render [OF cs'(2) cs'(1)] cs'(3) have pne: "parentOf p \<noteq> []" by simp
    obtain fs1 ok1 where m: "mkdirAll (parentOf p) fs = (fs1, ok1)"
      by (cases "mkdirAll (parentOf p) fs")
    from "1.IH" [OF None pne "1.prems"(1,2) cs'(2,3,4)] m have w1: "within d fs fs1" by simp
    then have d1: "lookup fs1 d = Some DirNode" by (simp add: within_def)
    have "fst (mkdirAll p fs) = (if ok1 then put p DirNode fs1 else fs1)"
      using None pne m by (subst mkdirAll.simps) simp
    moreover have "within d fs (put p DirNode fs1)"
      using w1 put_within [OF "1.prems"(5) pd d1] by (rule within_trans)
    ultimately show ?thesis using w1 by simp
  qed
qed

lemma os_MkdirAll_within:
  assumes "lookup fs d = Some DirNode" "d \<noteq> []" "inside d (Clean x)"
  shows "within d fs (fst (os_MkdirAll flt (Clean x) fs))"
proof -
  obtain r cs where "normal r cs" "Clean x = render r cs"
    using Clean_is_render [of x] by blast
  with assms show ?thesis
    by (simp add: os_MkdirAll_def within_refl mkdirAll_within)
qed

lemma os_OpenFile_within:
  assumes "lookup fs d = Some DirNode" "inside d p"
  shows "within d fs (fst (os_OpenFile flt p fs))"
proof (cases "p = d")
  case True
  with assms(1) have "fst (os_OpenFile flt p fs) = fs"
    by (simp add: os_OpenFile_def)
  with assms(1) show ?thesis by (simp add: within_refl)
next
  case False
  from put_within [OF assms(2) False assms(1)] assms(1) show ?thesis
    by (auto simp: os_OpenFile_def within_refl split: option.splits)
qed

lemma io_Copy_within:
  assumes "lookup fs d = Some DirNode" "inside d p"
  shows "within d fs (fst (io_Copy flt p b f fs))"
proof (cases "p = d")
  case True
  with assms(1) have "fst (io_Copy flt p b f fs) = fs"
    by (simp add: io_Copy_def)
  with assms(1) show ?thesis by (simp add: within_refl)
next
  case False
  from put_within [OF assms(2) False assms(1)] assms(1) show ?thesis
    by (auto simp: io_Copy_def within_refl split: option.splits node.splits)
qed

lemma under_inside: "under d p \<Longrightarrow> inside d p"
  by (simp add: inside_def)

lemma write_entry_within:
  assumes dir: "lookup fs d = Some DirNode" "d \<noteq> []" and u: "under d (Clean x)"
    and mk: "os_MkdirAll flt (Dir (Clean x)) fs = (fs1, ok1)"
    and op: "os_OpenFile flt (Clean x) fs1 = (fs2, ok2)"
    and cp: "io_Copy flt (Clean x) b f fs2 = (fs3, ok3)"
  shows "within d fs fs1 \<and> within d fs fs2 \<and> within d fs fs3"
proof -
  obtain r cs where n: "normal r cs" and c: "Clean x = render r cs"
    using Clean_is_render [of x] by blast
  from under_parent [OF n _ dir(2)] u c obtain cs' where
    cs': "normal r cs'" "Dir (Clean x) = render r cs'" "inside d (Dir (Clean x))"
    by auto
  have "within d fs (fst (mkdirAll (Dir (Clean x)) fs))"
    using dir cs' by (intro mkdirAll_within) auto
  with dir(1) mk have w1: "within d fs fs1"
    by (auto simp: os_MkdirAll_def within_refl split: if_splits)
  then have d1: "lookup fs1 d = Some DirNode" by (simp add: within_def)
  from os_OpenFile_within [OF d1 under_inside [OF u], of flt] op have w2: "within d fs1 fs2" by simp
  then have d2: "lookup fs2 d = Some DirNode" by (simp add: within_def)
  from io_Copy_within [OF d2 under_inside [OF u], of flt b f] cp have w3: "within d fs2 fs3" by simp
  from w1 w2 w3 show ?thesis by (meson within_trans)
qed

lemma extractTarLoop_within:
  assumes d: "d \<noteq> []"
  shows "lookup fs d = Some DirNode \<Longrightarrow> \<forall>h \<in> set entries. entryBelow d pd (tname h)
     \<Longrightarrow> within d fs (fst (extractTarLoop flt pd entries endErr fs))"
proof (induction entries arbitrary: fs)
  case Nil
  then show ?case by (simp add: within_refl)
next
  case (Cons h rest)
  let ?t = "Join [pd, Clean (tname h)]"
  from Cons.prems(2) have rest: "\<forall>h \<in> set rest. entryBelow d pd (tname h)" by simp
  show ?case
  proof (cases "prefix pd ?t")
    case False
    with Cons.prems(1) show ?thesis by (simp add: Let_def within_refl)
  next
    case True
    with Cons.prems(2) have u: "under d ?t" by (simp add: entryBelow_def)
    obtain x where x: "?t = Clean x" using Join_target_Clean [of pd "tname h"] by blast
    show ?thesis
    proof (cases "ttype h")
      case TypeDir
      obtain fs1 ok1 where mk: "os_MkdirAll flt ?t fs = (fs1, ok1)"
        by (cases "os_MkdirAll flt ?t fs")
      from os_MkdirAll_within [OF Cons.prems(1) d, of x flt] u x mk
      have w1: "within d fs fs1" by (simp add: under_inside)
      then have d1: "lookup fs1 d = Some DirNode" by (simp add: within_def)
      from w1 Cons.IH [OF d1 rest]
      have "within d fs (fst (extractTarLoop flt pd rest endErr fs1))" by (rule within_trans)
      with w1 True TypeDir mk show ?thesis by (cases ok1) (simp_all add: Let_def)
    next
      case TypeReg
      obtain fs1 ok1 where mk: "os_MkdirAll flt (Dir ?t) fs = (fs1, ok1)"
        by (cases "os_MkdirAll flt (Dir ?t) fs")
      obtain fs2 ok2 where op: "os_OpenFile flt ?t fs1 = (fs2, ok2)"
        by (cases "os_OpenFile flt ?t fs1")
      obtain fs3 ok3 where cp: "io_Copy flt ?t (tdata h) (tdata_fails h) fs2 = (fs3, ok3)"
        by (cases "io_Copy flt ?t (tdata h) (tdata_fails h) fs2")
      from write_entry_within [OF Cons.prems(1) d, of x flt fs1 ok1 fs2 ok2
          "tdata h" "tdata_fails h" fs3 ok3] u x mk op cp
      have t: "within d fs fs1" "within d fs fs2" "within d fs fs3" by simp_all
      from t(3) have d3: "lookup fs3 d = Some DirNode" by (simp add: within_def)
      from t(3) Cons.IH [OF d3 rest]
      have "within d fs (fst (extractTarLoop flt pd rest endErr fs3))" by (rule within_trans)
      with t True TypeReg mk op cp show ?thesis
        by (cases ok1; cases ok2; cases ok3) (simp_all add: Let_def)
    next
      case TypeOther
      with True Cons.IH [OF Cons.prems(1) rest] show ?thesis by (simp add: Let_def)
    qed
  qed
qed

lemma extractZipLoop_within:
  assumes d: "d \<noteq> []"
  shows "lookup fs d = Some DirNode \<Longrightarrow> \<forall>h \<in> set files. entryBelow d pd (zname h)
     \<Longrightarrow> within d fs (fst (extractZipLoop flt pd files fs))"
proof (induction files arbitrary: fs)
  case Nil
  then show ?case by (simp add: within_refl)
next
  case (Cons h rest)
  let ?t = "Join [pd, Clean (zname h)]"
  from Cons.prems(2) have rest: "\<forall>h \<in> set rest. entryBelow d pd (zname h)" by simp
  show ?case
  proof (cases "prefix pd ?t")
    case False
    with Cons.prems(1) show ?thesis by (simp add: Let_def within_refl)
  next
    case True
    with Cons.prems(2) have u: "under d ?t" by (simp add: entryBelow_def)
    obtain x where x: "?t = Clean x" using Join_target_Clean [of pd "zname h"] by blast
    show ?thesis
    proof (cases "zisdir h")
      case isdir: True
      obtain fs1 ok1 where mk: "os_MkdirAll flt ?t fs = (fs1, ok1)"
        by (cases "os_MkdirAll flt ?t fs")
      from os_MkdirAll_within [OF Cons.prems(1) d, of x flt] u x mk
      have w1: "within d fs fs1" by (simp add: under_inside)
      then have d1: "lookup fs1 d = Some DirNode" by (simp add: within_def)
      from w1 Cons.IH [OF d1 rest]
      have "within d fs (fst (extractZipLoop flt pd rest fs1))" by (rule within_trans)
      with w1 True isdir mk show ?thesis by (cases ok1) (simp_all add: Let_def)
    next
      case False
      obtain fs1 ok1 where mk: "os_MkdirAll flt (Dir ?t) fs = (fs1, ok1)"
        by (cases "os_MkdirAll flt (Dir ?t) fs")
      obtain fs2 ok2 where op: "os_OpenFile flt ?t fs1 = (fs2, ok2)"
        by (cases "os_OpenFile flt ?t fs1")
      obtain fs3 ok3 where cp: "io_Copy flt ?t (zdata h) (zdata_fails h) fs2 = (fs3, ok3)"
        by (cases "io_Copy flt ?t (zdata h) (zdata_fails h) fs2")
      from write_entry_within [OF Cons.prems(1) d, of x flt fs1 ok1 fs2 ok2
          "zdata h" "zdata_fails h" fs3 ok3] u x mk op cp
      have t: "within d fs fs1" "within d fs fs2" "within d fs fs3" by simp_all
      from t(3) have d3: "lookup fs3 d = Some DirNode" by (simp add: within_def)
      from t(3) Cons.IH [OF d3 rest]
      have "within d fs (fst (extractZipLoop flt pd rest fs3))" by (rule within_trans)
      with t True False mk op cp show ?thesis
        by (cases ok1; cases ok2; cases ok3) (simp_all add: Let_def)
    qed
  qed
qed


lemma runProcessor_within:
  assumes d: "d \<noteq> []" and dir: "lookup fs d = Some DirNode"
    and tar: "\<forall>r. \<forall>h \<in> set (fst (tarEntries e r)). entryBelow d pd (tname h)"
    and zip: "\<forall>r files. zipFiles e r = Some files \<longrightarrow> (\<forall>f \<in> set files. entryBelow d pd (zname f))"
  shows "within d fs (fst (runProcessor e p r pd fs))"
proof -
  have tarw: "within d fs (fst (extractTar e r pd fs))"
  proof -
    obtain fs' x where l: "extractTarLoop (fault e) pd (fst (tarEntries e r)) (snd (tarEntries e r)) fs
        = (fs', x)"
      by (cases "extractTarLoop (fault e) pd (fst (tarEntries e r)) (snd (tarEntries e r)) fs")
    from extractTarLoop_within [OF d dir, of "fst (tarEntries e r)" pd "fault e" "snd (tarEntries e r)"]
      tar l
    have "within d fs fs'" by simp
    with l show ?thesis by (cases x) (simp_all add: extractTar_def)
  qed
  have zipw: "within d fs (fst (extractZip e r pd fs))"
  proof (cases "zipFiles e r")
    case None
    with dir show ?thesis by (simp add: extractZip_def within_refl)
  next
    case (Some files)
    obtain fs' x where l: "extractZipLoop (fault e) pd files fs = (fs', x)"
      by (cases "extractZipLoop (fault e) pd files fs")
    from extractZipLoop_within [OF d dir, of files pd "fault e"] zip Some l
    have "within d fs fs'" by simp
    with l Some dir show ?thesis by (cases x) (simp_all add: extractZip_def within_refl)
  qed
  show ?thesis
    using tarw zipw dir
    by (cases p) (auto simp: runProcessor_def within_refl split: option.splits)
qed

lemma processFile_within:
  assumes d: "d \<noteq> []"
    and tar: "\<forall>r. \<forall>h \<in> set (fst (tarEntries e r)). entryBelow d pd (tname h)"
    and zip: "\<forall>r files. zipFiles e r = Some files \<longrightarrow> (\<forall>f \<in> set files. entryBelow d pd (zname f))"
  shows "lookup fs d = Some DirNode \<Longrightarrow> within d fs (fst (processFile e k r pd procs fs))"
proof (induction procs arbitrary: k r fs)
  case Nil
  then show ?case by (simp add: within_refl)
next
  case (Cons p procs)
  obtain fs1 r1 where rp: "runProcessor e p r pd fs = (fs1, r1)"
    by (cases "runProcessor e p r pd fs")
  from runProcessor_within [OF d Cons.prems tar zip, of p r] rp have w1: "within d fs fs1" by simp
  then have d1: "lookup fs1 d = Some DirNode" by (simp add: within_def)
  have "within d fs (fst (processFile e (Suc k) r' pd procs fs1))" for r'
    using w1 Cons.IH [OF d1, of "Suc k" r'] by (rule within_trans)
  with w1 rp Cons.prems show ?case
    by (auto simp: within_refl split: result.splits option.splits)
qed

lemma writePluginFiles_within:
  assumes d: "d \<noteq> []" and dir: "lookup fs d = Some DirNode" and dne: "dir \<noteq> []"
    and pdi: "inside d (Join [dir, Name info])"
    and bini: "inside d (Join [Join [dir, Name info], FileName info])"
    and tar: "\<forall>r. \<forall>h \<in> set (fst (tarEntries e r)). entryBelow d (Join [dir, Name info]) (tname h)"
    and zip: "\<forall>r files. zipFiles e r = Some files \<longrightarrow>
        (\<forall>f \<in> set files. entryBelow d (Join [dir, Name info]) (zname f))"
  shows "within d fs (fst (writePluginFiles e dir info fs))"
proof -
  let ?pd = "Join [dir, Name info]"
  let ?bin = "Join [?pd, FileName info]"
  obtain x where x: "?pd = Clean x" using dne by (auto simp: Join_def)
  obtain fs1 ok1 where mk: "os_MkdirAll (fault e) ?pd fs = (fs1, ok1)"
    by (cases "os_MkdirAll (fault e) ?pd fs")
  from os_MkdirAll_within [OF dir d, of x "fault e"] pdi x mk have t1: "within d fs fs1" by simp
  then have d1: "lookup fs1 d = Some DirNode" by (simp add: within_def)
  obtain fs2 ok2 where op: "os_OpenFile (fault e) ?bin fs1 = (fs2, ok2)"
    by (cases "os_OpenFile (fault e) ?bin fs1")
  from os_OpenFile_within [OF d1 bini, of "fault e"] op have "within d fs1 fs2" by simp
  with t1 have t2: "within d fs fs2" by (rule within_trans)
  then have d2: "lookup fs2 d = Some DirNode" by (simp add: within_def)
  have t3: "within d fs fs3" if "io_Copy (fault e) ?bin b f fs2 = (fs3, ok3)" for b f fs3 ok3
    using t2 io_Copy_within [OF d2 bini, of "fault e" b f] that by (auto intro: within_trans)
  have t4: "within d fs fs3" if "processFile e 0 r ?pd procs fs2 = (fs3, y)" for r procs fs3 y
    using t2 processFile_within [OF d tar zip d2, of 0 r procs] that by (auto intro: within_trans)
  have t5: "within d fs fs4"
    if "processFile e 0 r ?pd procs fs2 = (fs3, y)" "io_Copy (fault e) ?bin b f fs3 = (fs4, ok4)"
    for r procs fs3 y b f fs4 ok4
  proof -
    from t4 [OF that(1)] have w3: "within d fs fs3" .
    then have d3: "lookup fs3 d = Some DirNode" by (simp add: within_def)
    from w3 io_Copy_within [OF d3 bini, of "fault e" b f] that(2) show ?thesis
      by (auto intro: within_trans)
  qed
  show ?thesis
    unfolding writePluginFiles_def Let_def mk
    using t1 t2 t3 t4 t5 op
    by (cases ok1; cases ok2)
       (auto split: option.splits prod.splits result.splits bool.splits)
qed

lemma mkdirAll_fresh:
  assumes "lookup fs d = None" "parentOf d = [] \<or> lookup fs (parentOf d) = Some DirNode"
  shows "mkdirAll d fs = (put d DirNode fs, True)"
proof (cases "parentOf d = []")
  case True
  with assms(1) show ?thesis by (subst mkdirAll.simps) simp
next
  case False
  with assms(2) have "mkdirAll (parentOf d) fs = (fs, True)"
    by (subst mkdirAll.simps) simp
  with assms(1) False show ?thesis by (subst mkdirAll.simps) simp
qed

lemma os_WriteFile_fail: "os_WriteFile flt p b fs = (fs', False) \<Longrightarrow> fs' = fs"
  by (auto simp: os_WriteFile_def split: if_splits)

lemma installSteps_outside:
  assumes d: "d \<noteq> []" and absent: "lookup fs d = None"
    and parent: "parentOf d = [] \<or> lookup fs (parentOf d) = Some DirNode"
    and names: "\<forall>info. fetch e name version = Some info \<longrightarrow>
        inside d (Join [d, Name info]) \<and> inside d (Join [Join [d, Name info], FileName info])"
    and tar: "\<forall>info r h. fetch e name version = Some info \<and> h \<in> set (fst (tarEntries e r)) \<longrightarrow>
        entryBelow d (Join [d, Name info]) (tname h)"
    and zip: "\<forall>info r files f. fetch e name version = Some info \<and> zipFiles e r = Some files
        \<and> f \<in> set files \<longrightarrow> entryBelow d (Join [d, Name info]) (zname f)"
    and failed: "snd (installSteps e d name version fs) \<noteq> Ok ()"
  shows "removeTree d (fst (installSteps e d name version fs)) = removeTree d fs"
proof (cases "fault e (SysMkdirAll d)")
  case True
  then show ?thesis by (simp add: installSteps_def os_MkdirAll_def)
next
  case False
  let ?fs1 = "put d DirNode fs"
  from False d mkdirAll_fresh [OF absent parent]
  have mk: "os_MkdirAll (fault e) d fs = (?fs1, True)" by (simp add: os_MkdirAll_def)
  have r1: "removeTree d ?fs1 = removeTree d fs" by (simp add: removeTree_put inside_def)
  have d1: "lookup ?fs1 d = Some DirNode" by (simp add: lookup_put)
  show ?thesis
  proof (cases "fetch e name version")
    case None
    with mk r1 show ?thesis by (simp add: installSteps_def)
  next
    case (Some info)
    obtain fs2 r2 where w: "writePluginFiles e d info ?fs1 = (fs2, r2)"
      by (cases "writePluginFiles e d info ?fs1")
    have "within d ?fs1 (fst (writePluginFiles e d info ?fs1))"
      using names tar zip Some by (intro writePluginFiles_within [OF d d1 d]) auto
    with w have "removeTree d fs2 = removeTree d ?fs1" by (simp add: within_def)
    with r1 have r2: "removeTree d fs2 = removeTree d fs" by simp
    have "fst (installSteps e d name version fs) = fs2
        \<or> snd (installSteps e d name version fs) = Ok ()"
      using mk Some w
      by (auto simp: installSteps_def split: result.splits option.splits prod.splits bool.splits
            dest: os_WriteFile_fail)
    with failed r2 show ?thesis by auto
  qed
qed

lemma installSteps_error: "snd (installSteps e d name version fs) \<noteq> Err AlreadyInstalled"
  by (auto simp: installSteps_def split: prod.splits bool.splits option.splits result.splits)

lemma Install_not_refused:
  assumes "lookup fs (Join [root, name]) = None"
  shows "snd (Install e root name version fs) \<noteq> Err AlreadyInstalled"
proof -
  from assms have st: "os_Stat (fault e) (Join [root, name]) fs = Some ENOENT"
    by (simp add: os_Stat_def)
  obtain fs1 r1 where s: "installSteps e (Join [root, name]) name version fs = (fs1, r1)"
    by (cases "installSteps e (Join [root, name]) name version fs")
  with installSteps_error [of e "Join [root, name]" name version fs]
  have "r1 \<noteq> Err AlreadyInstalled" by simp
  with st s show ?thesis
    by (cases r1) (simp_all add: Install_def Let_def)
qed

section \<open>Results on Install\<close>

text \<open>
  Claim C1, as amended. When \<open>Install\<close> has passed its precondition checks (context
  live, plugin root set, plugin directory not found) and then fails at any later point
  (creation of the directory, fetch, extraction, cancellation during processing, panic,
  marshalling or writing the record), the plugin directory and everything below it do not
  exist when \<open>Install\<close> is done, and no following \<open>Install\<close> of that name is refused as
  already installed. The deferred \<open>os.RemoveAll\<close> does the work; its own error is
  discarded by the code, so the statement is for a removal that is not itself faulted.
  If moreover nothing existed at or below the plugin directory before, its parent
  directory existed (or the path has no parent), and the attempt wrote only inside the
  plugin directory (the plugin-specific directory and the plugin file that
  \<open>writePluginFiles\<close> makes from the \<open>Name\<close> and \<open>FileName\<close> of the fetched record are the
  plugin directory or lie below it, and every archive entry that passes the prefix check
  of the extractors resolves below the plugin directory), then the failed \<open>Install\<close>
  leaves the file system as it found it, so that every following \<open>Install\<close> of that name
  runs as it would have run without the failed attempt. By \<open>plain_names_inside\<close> the two
  paths are at or below the plugin directory whenever each of the two names is empty or a
  single path element other than \<open>.\<close> and \<open>..\<close>, and by \<open>entryBelow_nested\<close> the archive
  entries are as required whenever the plugin-specific directory lies below the plugin
  directory.
\<close>

theorem Install_atomic:
  assumes checks: "\<not> cancelled e CtxEntry" "root \<noteq> []"
      "os_Stat (fault e) (Join [root, name]) fs \<noteq> None"
    and failed: "snd (Install e root name version fs) \<noteq> Ok ()"
    and cleanup: "\<not> fault e (SysRemoveAll (Join [root, name]))"
  shows "(\<forall>q. inside (Join [root, name]) q \<longrightarrow> lookup (fst (Install e root name version fs)) q = None)
     \<and> (\<forall>e' version'. snd (Install e' root name version' (fst (Install e root name version fs)))
            \<noteq> Err AlreadyInstalled)
     \<and> ((\<forall>q. inside (Join [root, name]) q \<longrightarrow> lookup fs q = None)
        \<and> (parentOf (Join [root, name]) = [] \<or> lookup fs (parentOf (Join [root, name])) = Some DirNode)
        \<and> (\<forall>info. fetch e name version = Some info \<longrightarrow>
              inside (Join [root, name]) (Join [Join [root, name], Name info])
            \<and> inside (Join [root, name]) (Join [Join [Join [root, name], Name info], FileName info]))
        \<and> (\<forall>info r h. fetch e name version = Some info \<and> h \<in> set (fst (tarEntries e r)) \<longrightarrow>
              entryBelow (Join [root, name]) (Join [Join [root, name], Name info]) (tname h))
        \<and> (\<forall>info r files f. fetch e name version = Some info \<and> zipFiles e r = Some files
              \<and> f \<in> set files \<longrightarrow>
              entryBelow (Join [root, name]) (Join [Join [root, name], Name info]) (zname f))
       \<longrightarrow> fst (Install e root name version fs) = fs
         \<and> (\<forall>e' version'. Install e' root name version' (fst (Install e root name version fs))
                = Install e' root name version' fs))"
proof -
  let ?dir = "Join [root, name]"
  let ?fs' = "fst (Install e root name version fs)"
  obtain fs1 r where steps: "installSteps e ?dir name version fs = (fs1, r)"
    by (cases "installSteps e ?dir name version fs")
  have ne: "?dir \<noteq> []" using checks(2) by (rule Join_nonempty)
  from failed checks steps have r: "r \<noteq> Ok ()"
    by (auto simp: Install_def Let_def split: result.splits)
  with checks steps have "?fs' = fst (os_RemoveAll (fault e) ?dir fs1)"
    by (auto simp: Install_def Let_def split: result.splits)
  with cleanup ne have fs': "?fs' = removeTree ?dir fs1"
    by (simp add: os_RemoveAll_def)
  have gone: "\<forall>q. inside ?dir q \<longrightarrow> lookup ?fs' q = None"
    unfolding fs' by (simp add: lookup_removeTree)
  then have "lookup ?fs' ?dir = None" by (simp add: inside_def)
  then have again: "\<forall>e' version'. snd (Install e' root name version' ?fs') \<noteq> Err AlreadyInstalled"
    by (simp add: Install_not_refused)
  have same: "?fs' = fs"
    if absent: "\<forall>q. inside ?dir q \<longrightarrow> lookup fs q = None"
      and parent: "parentOf ?dir = [] \<or> lookup fs (parentOf ?dir) = Some DirNode"
      and names: "\<forall>info. fetch e name version = Some info \<longrightarrow>
              inside ?dir (Join [?dir, Name info])
            \<and> inside ?dir (Join [Join [?dir, Name info], FileName info])"
      and tar: "\<forall>info r h. fetch e name version = Some info \<and> h \<in> set (fst (tarEntries e r)) \<longrightarrow>
              entryBelow ?dir (Join [?dir, Name info]) (tname h)"
      and zip: "\<forall>info r files f. fetch e name version = Some info \<and> zipFiles e r = Some files
              \<and> f \<in> set files \<longrightarrow> entryBelow ?dir (Join [?dir, Name info]) (zname f)"
  proof -
    from absent have a: "lookup fs ?dir = None" by (simp add: inside_def)
    from r steps have "snd (installSteps e ?dir name version fs) \<noteq> Ok ()" by simp
    from installSteps_outside [OF ne a parent names tar zip this] steps
    have "removeTree ?dir fs1 = removeTree ?dir fs" by simp
    with fs' removeTree_absent [OF absent] show ?thesis by simp
  qed
  have restored: "?fs' = fs
      \<and> (\<forall>e' version'. Install e' root name version' ?fs' = Install e' root name version' fs)"
    if h: "(\<forall>q. inside ?dir q \<longrightarrow> lookup fs q = None)
        \<and> (parentOf ?dir = [] \<or> lookup fs (parentOf ?dir) = Some DirNode)
        \<and> (\<forall>info. fetch e name version = Some info \<longrightarrow>
              inside ?dir (Join [?dir, Name info])
            \<and> inside ?dir (Join [Join [?dir, Name info], FileName info]))
        \<and> (\<forall>info r h. fetch e name version = Some info \<and> h \<in> set (fst (tarEntries e r)) \<longrightarrow>
              entryBelow ?dir (Join [?dir, Name info]) (tname h))
        \<and> (\<forall>info r files f. fetch e name version = Some info \<and> zipFiles e r = Some files
              \<and> f \<in> set files \<longrightarrow> entryBelow ?dir (Join [?dir, Name info]) (zname f))"
  proof -
    from h have "?fs' = fs" by (intro same) blast+
    then show ?thesis by simp
  qed
  show ?thesis
  proof (intro conjI impI)
    show "\<forall>q. inside ?dir q \<longrightarrow> lookup ?fs' q = None" by (rule gone)
    show "\<forall>e' version'. snd (Install e' root name version' ?fs') \<noteq> Err AlreadyInstalled"
      by (rule again)
  qed (use restored in blast)+
qed

theorem Install_atomic_witness:
  "\<not> cancelled lateFaultEnv CtxEntry
   \<and> lookup (fst (installSteps lateFaultEnv ''/p/tool'' ''tool'' ''latest'' rootOnly))
        ''/p/tool/tool/tool.bin'' = Some (FileNode ''#!bin'')
   \<and> snd (Install lateFaultEnv ''/p'' ''tool'' ''latest'' rootOnly) = Err SaveMetadataFailed
   \<and> lookup (fst (Install lateFaultEnv ''/p'' ''tool'' ''latest'' rootOnly)) ''/p/tool'' = None
   \<and> fst (Install lateFaultEnv ''/p'' ''tool'' ''latest'' rootOnly) = rootOnly
   \<and> Install demoEnv ''/p'' ''tool'' ''2.0'' (fst (Install lateFaultEnv ''/p'' ''tool'' ''latest'' rootOnly))
       = Install demoEnv ''/p'' ''tool'' ''2.0'' rootOnly
   \<and> snd (Install demoEnv ''/p'' ''tool'' ''2.0'' rootOnly) = Ok ()
   \<and> lookup (fst (installSteps tarballEnv ''/p/tool'' ''tool'' ''latest'' rootOnly))
        ''/p/tool/tool/bin/run'' = Some (FileNode ''run'')
   \<and> snd (Install tarballEnv ''/p'' ''tool'' ''latest'' rootOnly) = Panic
   \<and> fst (Install tarballEnv ''/p'' ''tool'' ''latest'' rootOnly) = rootOnly"
proof -
  have j: "Join [''/p'', ''tool''] = ''/p/tool''" by code_simp
  have absent: "\<forall>q. inside (Join [''/p'', ''tool'']) q \<longrightarrow> lookup rootOnly q = None"
    unfolding j by (auto simp: rootOnly_def lookup_def inside_def under_def)
  have parent: "parentOf (Join [''/p'', ''tool'']) = []
      \<or> lookup rootOnly (parentOf (Join [''/p'', ''tool''])) = Some DirNode" by code_simp
  have st: "os_Stat (fault e) (Join [''/p'', ''tool'']) rootOnly \<noteq> None" for e
    unfolding j by (simp add: os_Stat_def rootOnly_def lookup_def)
  have i1: "inside (Join [''/p'', ''tool'']) (Join [Join [''/p'', ''tool''], Name demoInfo])"
    by code_simp
  have i2: "inside (Join [''/p'', ''tool''])
      (Join [Join [Join [''/p'', ''tool''], Name demoInfo], FileName demoInfo])" by code_simp
  have eb: "entryBelow (Join [''/p'', ''tool'']) (Join [Join [''/p'', ''tool''], Name demoInfo]) ''bin/run''"
    by code_simp

  have a1: "\<not> cancelled lateFaultEnv CtxEntry" by code_simp
  have a2: "snd (Install lateFaultEnv ''/p'' ''tool'' ''latest'' rootOnly) = Err SaveMetadataFailed"
    by code_simp
  have a3: "\<not> fault lateFaultEnv (SysRemoveAll (Join [''/p'', ''tool'']))" by code_simp
  have a4: "fetch lateFaultEnv ''tool'' ''latest'' = Some demoInfo" by code_simp
  have a5: "tarEntries lateFaultEnv r = ([], False)" for r
    by (simp add: lateFaultEnv_def demoEnv_def)
  have a6: "zipFiles lateFaultEnv r = None" for r
    by (simp add: lateFaultEnv_def demoEnv_def)
  have a7: "lookup (fst (installSteps lateFaultEnv ''/p/tool'' ''tool'' ''latest'' rootOnly))
        ''/p/tool/tool/tool.bin'' = Some (FileNode ''#!bin'')" by code_simp
  have a8: "snd (Install demoEnv ''/p'' ''tool'' ''2.0'' rootOnly) = Ok ()" by code_simp
  from a2 have a2': "snd (Install lateFaultEnv ''/p'' ''tool'' ''latest'' rootOnly) \<noteq> Ok ()" by simp
  have names: "\<forall>info. fetch lateFaultEnv ''tool'' ''latest'' = Some info \<longrightarrow>
      inside (Join [''/p'', ''tool'']) (Join [Join [''/p'', ''tool''], Name info])
    \<and> inside (Join [''/p'', ''tool'']) (Join [Join [Join [''/p'', ''tool''], Name info], FileName info])"
    using a4 i1 i2 by simp
  have tar: "\<forall>info r h. fetch lateFaultEnv ''tool'' ''latest'' = Some info
      \<and> h \<in> set (fst (tarEntries lateFaultEnv r)) \<longrightarrow>
      entryBelow (Join [''/p'', ''tool'']) (Join [Join [''/p'', ''tool''], Name info]) (tname h)"
    by (simp add: a5)
  have zip: "\<forall>info r files f. fetch lateFaultEnv ''tool'' ''latest'' = Some info
      \<and> zipFiles lateFaultEnv r = Some files \<and> f \<in> set files \<longrightarrow>
      entryBelow (Join [''/p'', ''tool'']) (Join [Join [''/p'', ''tool''], Name info]) (zname f)"
    by (simp add: a6)
  from Install_atomic [OF a1 _ st a2' a3] absent parent names tar zip
  have r1: "lookup (fst (Install lateFaultEnv ''/p'' ''tool'' ''latest'' rootOnly)) (Join [''/p'', ''tool'']) = None"
    and r2: "fst (Install lateFaultEnv ''/p'' ''tool'' ''latest'' rootOnly) = rootOnly"
    and r3: "Install demoEnv ''/p'' ''tool'' ''2.0'' (fst (Install lateFaultEnv ''/p'' ''tool'' ''latest'' rootOnly))
       = Install demoEnv ''/p'' ''tool'' ''2.0'' rootOnly"
    by (simp_all add: inside_def)

  have b1: "\<not> cancelled tarballEnv CtxEntry" by code_simp
  have b2: "snd (Install tarballEnv ''/p'' ''tool'' ''latest'' rootOnly) = Panic" by code_simp
  have b3: "\<not> fault tarballEnv (SysRemoveAll (Join [''/p'', ''tool'']))" by code_simp
  have b4: "fetch tarballEnv n v = Some (demoInfo\<lparr>Content := CBytes ''gz''\<rparr>)" for n v
    by (simp add: tarballEnv_def)
  have b5: "fst (tarEntries tarballEnv r)
      = [\<lparr>tname = ''bin/run'', ttype = TypeReg, tdata = ''run'', tdata_fails = False\<rparr>]" for r
    by (simp add: tarballEnv_def)
  have b6: "zipFiles tarballEnv r = None" for r
    by (simp add: tarballEnv_def demoEnv_def)
  have b7: "lookup (fst (installSteps tarballEnv ''/p/tool'' ''tool'' ''latest'' rootOnly))
        ''/p/tool/tool/bin/run'' = Some (FileNode ''run'')" by code_simp
  from b2 have b2': "snd (Install tarballEnv ''/p'' ''tool'' ''latest'' rootOnly) \<noteq> Ok ()" by simp
  have names2: "\<forall>info. fetch tarballEnv ''tool'' ''latest'' = Some info \<longrightarrow>
      inside (Join [''/p'', ''tool'']) (Join [Join [''/p'', ''tool''], Name info])
    \<and> inside (Join [''/p'', ''tool'']) (Join [Join [Join [''/p'', ''tool''], Name info], FileName info])"
    using i1 i2 by (simp add: b4)
  have tar2: "\<forall>info r h. fetch tarballEnv ''tool'' ''latest'' = Some info
      \<and> h \<in> set (fst (tarEntries tarballEnv r)) \<longrightarrow>
      entryBelow (Join [''/p'', ''tool'']) (Join [Join [''/p'', ''tool''], Name info]) (tname h)"
    using eb by (auto simp: b4 b5)
  have zip2: "\<forall>info r files f. fetch tarballEnv ''tool'' ''latest'' = Some info
      \<and> zipFiles tarballEnv r = Some files \<and> f \<in> set files \<longrightarrow>
      entryBelow (Join [''/p'', ''tool'']) (Join [Join [''/p'', ''tool''], Name info]) (zname f)"
    by (simp add: b6)
  from Install_atomic [OF b1 _ st b2' b3] absent parent names2 tar2 zip2
  have r4: "fst (Install tarballEnv ''/p'' ''tool'' ''latest'' rootOnly) = rootOnly"
    by simp
  from a1 a7 a2 r1 r2 r3 a8 b7 b2 r4 show ?thesis by (simp add: j)
qed

text \<open>
  The claim as stated, for every failed attempt, fails: a fetched record with the name
  \<open>../shared\<close> makes \<open>writePluginFiles\<close> write the file \<open>/p/shared/f\<close>, outside the plugin
  directory \<open>/p/tool\<close>. When the record then cannot be saved, the attempt removes
  \<open>/p/tool\<close> and leaves \<open>/p/shared/f\<close> with the bytes \<open>abcdef\<close>. A following \<open>Install\<close>
  whose content is \<open>Z\<close> succeeds and leaves \<open>Zbcdef\<close> in that file, which is opened without
  truncation; the same \<open>Install\<close> on the file system from before the failed attempt
  leaves \<open>Z\<close>.
\<close>

theorem Install_atomic_counterexample:
  "snd (Install sharedFailEnv ''/p'' ''tool'' ''1.0'' rootOnly) = Err SaveMetadataFailed
   \<and> lookup (fst (Install sharedFailEnv ''/p'' ''tool'' ''1.0'' rootOnly)) ''/p/tool'' = None
   \<and> lookup (fst (Install sharedFailEnv ''/p'' ''tool'' ''1.0'' rootOnly)) ''/p/shared/f''
       = Some (FileNode ''abcdef'')
   \<and> snd (Install sharedEnv ''/p'' ''tool'' ''1.0''
            (fst (Install sharedFailEnv ''/p'' ''tool'' ''1.0'' rootOnly))) = Ok ()
   \<and> lookup (fst (Install sharedEnv ''/p'' ''tool'' ''1.0''
            (fst (Install sharedFailEnv ''/p'' ''tool'' ''1.0'' rootOnly)))) ''/p/shared/f''
       = Some (FileNode ''Zbcdef'')
   \<and> snd (Install sharedEnv ''/p'' ''tool'' ''1.0'' rootOnly) = Ok ()
   \<and> lookup (fst (Install sharedEnv ''/p'' ''tool'' ''1.0'' rootOnly)) ''/p/shared/f''
       = Some (FileNode ''Z'')"
  by code_simp

end
